(* ===== verification/Prelude.thy ===== *)
theory Prelude
  imports Main
begin

text \<open>
  The shared base of the development: the collections that the component theories fill
  and use, the model of Go's \<^verbatim>\<open>error\<close> values, and generic lemmas on maps and lists.
\<close>

section \<open>Collections\<close>

text \<open>
  \<^item> \<open>go_defs\<close>: the definitions of the operations of the program, unfolded to run one;
  \<^item> \<open>wire_simps\<close>: the encoders and decoders of the messages and cache entries;
  \<^item> \<open>law_simps\<close>: how the abstract store reacts to one statement.
\<close>

named_theorems go_defs
named_theorems wire_simps
named_theorems law_simps

section \<open>Go errors\<close>

text \<open>
  A Go error is one of the sentinels the repository declares or compares with, an error
  of the HTTP framework (status and message), an error made by \<^verbatim>\<open>fmt.Errorf\<close> with
  \<^verbatim>\<open>%w\<close> (the text before and after the wrapped error), or any other error, known
  only by its message.
\<close>

datatype goerror =
    ErrNotFound          \<comment> \<open>\<^verbatim>\<open>repository.ErrNotFound\<close>\<close>
  | ErrInvalidInput      \<comment> \<open>\<^verbatim>\<open>service.ErrInvalidInput\<close>\<close>
  | ErrDisabled          \<comment> \<open>\<^verbatim>\<open>llm.ErrDisabled\<close>\<close>
  | ErrRecordNotFound    \<comment> \<open>\<^verbatim>\<open>gorm.ErrRecordNotFound\<close>\<close>
  | RedisNil             \<comment> \<open>\<^verbatim>\<open>redis.Nil\<close>\<close>
  | FiberError int string
  | Wrapped string goerror string
  | Plain string

text \<open>\<^verbatim>\<open>errors.Is\<close>: some error on the chain of wrapped errors is the target.\<close>

fun errors_Is :: "goerror \<Rightarrow> goerror \<Rightarrow> bool" where
  "errors_Is (Wrapped pre e post) target = (Wrapped pre e post = target \<or> errors_Is e target)"
| "errors_Is e target = (e = target)"

text \<open>\<^verbatim>\<open>errors.As(err, &fe)\<close> for the framework's error type.\<close>

fun as_fiber :: "goerror \<Rightarrow> (int \<times> string) option" where
  "as_fiber (FiberError code msg) = Some (code, msg)"
| "as_fiber (Wrapped pre e post) = as_fiber e"
| "as_fiber _ = None"

fun error_text :: "goerror \<Rightarrow> string" where
  "error_text ErrNotFound = ''repository: resource not found''"
| "error_text ErrInvalidInput = ''service: invalid input''"
| "error_text ErrDisabled = ''llm: client disabled (no API key configured)''"
| "error_text ErrRecordNotFound = ''record not found''"
| "error_text RedisNil = ''redis: nil''"
| "error_text (FiberError code msg) = msg"
| "error_text (Wrapped pre e post) = pre @ error_text e @ post"
| "error_text (Plain msg) = msg"

text \<open>\<^verbatim>\<open>fmt.Errorf("ctx: %w", err)\<close>.\<close>

definition errorf :: "string \<Rightarrow> goerror \<Rightarrow> goerror" where
  "errorf ctx e = Wrapped (ctx @ '': '') e []"

lemma errors_Is_errorf [simp]: "errors_Is (errorf ctx e) ErrNotFound = errors_Is e ErrNotFound"
  by (simp add: errorf_def)

lemma errorf_eq_iff [simp]: "errorf ctx e = errorf ctx' e' \<longleftrightarrow> ctx = ctx' \<and> e = e'"
  by (auto simp: errorf_def)

section \<open>Durations\<close>

text \<open>A \<^verbatim>\<open>time.Duration\<close> and a \<^verbatim>\<open>time.Time\<close> are integers of nanoseconds, the
  latter since the Unix epoch.\<close>

abbreviation millisecond :: int where "millisecond \<equiv> 1000000"
abbreviation second :: int where "second \<equiv> 1000000000"
abbreviation minute :: int where "minute \<equiv> 60 * second"
abbreviation hour :: int where "hour \<equiv> 60 * minute"

section \<open>Maps and lists\<close>

lemma map_le_upd_le: "m \<subseteq>\<^sub>m m' \<Longrightarrow> m(k \<mapsto> v) \<subseteq>\<^sub>m m'(k \<mapsto> v)"
  by (auto simp: map_le_def dom_def)

lemma map_leD: "m \<subseteq>\<^sub>m m' \<Longrightarrow> m k = Some v \<Longrightarrow> m' k = Some v"
  by (metis domI map_le_def)

lemma map_le_None: "m \<subseteq>\<^sub>m m' \<Longrightarrow> m' k = None \<Longrightarrow> m k = None"
  by (metis domIff map_le_implies_dom_le subsetD)

end
