(* ===== verification/Task_Model.thy ===== *)
theory Task_Model
  imports Prelude
begin

text \<open>
  The entity of \<^verbatim>\<open>internal/model/task.go\<close>: the task record, its status strings, and
  the identifiers and times it holds.
\<close>

text \<open>
  A UUID is represented by its canonical text, so \<^verbatim>\<open>id.String()\<close> is the selector.
\<close>

datatype uuid = Uuid (uuid_String: string)

definition uuid_Nil :: uuid where
  "uuid_Nil = Uuid ''00000000-0000-0000-0000-000000000000''"

type_synonym TaskStatus = string

definition TaskStatusPending :: TaskStatus where "TaskStatusPending = ''pending''"
definition TaskStatusProcessing :: TaskStatus where "TaskStatusProcessing = ''processing''"
definition TaskStatusCompleted :: TaskStatus where "TaskStatusCompleted = ''completed''"
definition TaskStatusFailed :: TaskStatus where "TaskStatusFailed = ''failed''"

lemmas status_defs =
  TaskStatusPending_def TaskStatusProcessing_def TaskStatusCompleted_def TaskStatusFailed_def

lemma status_distinct [simp]:
  "TaskStatusPending \<noteq> TaskStatusProcessing" "TaskStatusProcessing \<noteq> TaskStatusPending"
  "TaskStatusPending \<noteq> TaskStatusCompleted" "TaskStatusCompleted \<noteq> TaskStatusPending"
  "TaskStatusPending \<noteq> TaskStatusFailed" "TaskStatusFailed \<noteq> TaskStatusPending"
  "TaskStatusProcessing \<noteq> TaskStatusCompleted" "TaskStatusCompleted \<noteq> TaskStatusProcessing"
  "TaskStatusProcessing \<noteq> TaskStatusFailed" "TaskStatusFailed \<noteq> TaskStatusProcessing"
  "TaskStatusCompleted \<noteq> TaskStatusFailed" "TaskStatusFailed \<noteq> TaskStatusCompleted"
  by (simp_all add: status_defs)

lemma status_nonempty [simp]:
  "TaskStatusPending \<noteq> []" "TaskStatusProcessing \<noteq> []" "TaskStatusCompleted \<noteq> []"
  by (simp_all add: status_defs)

definition Valid :: "TaskStatus \<Rightarrow> bool" where
  "Valid s \<longleftrightarrow>
     s = TaskStatusPending \<or> s = TaskStatusProcessing \<or>
     s = TaskStatusCompleted \<or> s = TaskStatusFailed"

text \<open>
  \<open>DeletedAt\<close> is \<^verbatim>\<open>gorm.DeletedAt\<close>, a nullable time. \<open>time_zero\<close> is the zero
  \<^verbatim>\<open>time.Time\<close> (January 1 of year 1, UTC).
\<close>

record task =
  ID :: uuid
  Title :: string
  Description :: string
  Status :: TaskStatus
  Summary :: string
  CreatedAt :: int
  UpdatedAt :: int
  DeletedAt :: "int option"

definition time_zero :: int where
  "time_zero = - 62135596800 * second"

text \<open>\<^verbatim>\<open>model.Task{}\<close>, every field at its zero value.\<close>

definition zero_task :: task where
  "zero_task =
     \<lparr>ID = uuid_Nil, Title = '''', Description = '''', Status = '''', Summary = '''',
      CreatedAt = time_zero, UpdatedAt = time_zero, DeletedAt = None\<rparr>"

end
