(* ===== verification/Effects.thy ===== *)
theory Effects
  imports Task_Model "HOL-Library.Word"
begin

text \<open>
  What the program asks of the services around it, and the programs that ask. The Go code
  calls GORM, the Redis client, the AMQP client, the language model, the clock and the
  UUID generator; none of them is part of the repository. A Go function that calls them is
  modelled as an \<^emph>\<open>interaction program\<close> \<open>'a prog\<close>: either it returns, or it makes one
  call, with the arguments the source passes, and continues with whatever the service
  replies. The services themselves are an environment \<open>'w env\<close>, a parameter of every
  statement: a function for each kind of call, over a state \<open>'w\<close> of its own.

  \<open>run\<close> executes a program alone, \<open>log\<close> is the list of the calls it made with their
  replies, \<open>step\<close> performs one call, so that several programs can be interleaved.
  \<open>only\<close> and \<open>always\<close> are properties of the calls a program can make whatever the
  services reply.
\<close>

section \<open>The arguments and replies of the calls\<close>

subsection \<open>Byte strings\<close>

text \<open>
  A byte slice that \<^verbatim>\<open>encoding/json\<close> produced or will read is represented by the JSON
  value it spells (\<open>Json\<close>), any other one by its bytes (\<open>Raw\<close>). The text syntax of
  JSON is not modelled; what the decoders do with a value is (theory \<open>Json_Codec\<close>).
\<close>

datatype json =
    JNull
  | JBool bool
  | JNum int
  | JStr string
  | JArr "json list"
  | JObj "(string \<times> json) list"

datatype bytes = Json json | Raw string

subsection \<open>SQL through GORM\<close>

text \<open>
  The conditions the repository writes as SQL fragments, and the statements it builds from
  them. \<open>Updates\<close> and \<open>Delete\<close> report the number of rows affected.
\<close>

datatype cond =
    IdIs uuid
  | StatusIs TaskStatus
  | CreatedBefore int
  | UpdatedBefore int
  | CondAnd cond cond
  | CondOr cond cond

fun holds :: "cond \<Rightarrow> task \<Rightarrow> bool" where
  "holds (IdIs i) t \<longleftrightarrow> ID t = i"
| "holds (StatusIs s) t \<longleftrightarrow> Status t = s"
| "holds (CreatedBefore x) t \<longleftrightarrow> CreatedAt t < x"
| "holds (UpdatedBefore x) t \<longleftrightarrow> UpdatedAt t < x"
| "holds (CondAnd c d) t \<longleftrightarrow> holds c t \<and> holds d t"
| "holds (CondOr c d) t \<longleftrightarrow> holds c t \<or> holds d t"

datatype assign = SetStatus TaskStatus | SetSummary string

datatype order = CreatedAsc | CreatedDesc

record query =
  q_where :: "cond option"
  q_order :: order
  q_limit :: int
  q_offset :: int

datatype stmt = Updates cond "assign list" | Save task | Delete cond

subsection \<open>Redis, AMQP, the language model\<close>

datatype redis_cmd = Set string bytes int | Del string | PingRedis

type_synonym float64 = "64 word" \<comment> \<open>the IEEE bit pattern; only passed on\<close>

datatype header_val =
    HInt32 "32 word" | HInt64 "64 word" | HInt "64 word" | HString string | HOther

type_synonym headers = "string \<rightharpoonup> header_val"

record publishing =
  p_ContentType :: string
  p_Persistent :: bool
  p_Headers :: headers
  p_Timestamp :: int
  p_Body :: bytes

record delivery =
  d_Tag :: nat
  d_ContentType :: string
  d_RoutingKey :: string
  d_Headers :: headers
  d_Body :: bytes

text \<open>
  The flags are those of the AMQP methods: \<open>ExchangeDeclare name kind durable autoDelete
  internal noWait\<close>, \<open>QueueDeclare name durable autoDelete exclusive noWait args\<close>,
  \<open>QueueBind queue key exchange\<close>, \<open>Consume queue autoAck\<close>. \<open>PublishPlain\<close> is
  \<^verbatim>\<open>PublishWithContext\<close>; \<open>PublishConfirm\<close> is
  \<^verbatim>\<open>PublishWithDeferredConfirmWithContext\<close>, whose confirmation is awaited by
  \<open>AwaitConfirm\<close>. Both take the exchange and the routing key.
\<close>

datatype amqp_cmd =
    OpenChannel
  | CloseChannel
  | CloseConn
  | ConfirmMode
  | ExchangeDeclare string string bool bool bool bool
  | QueueDeclare string bool bool bool bool "(string \<times> string) list"
  | QueueBind string string string
  | Qos int
  | Consume string bool
  | PublishPlain string string publishing
  | PublishConfirm string string publishing
  | Ack nat
  | Nack nat bool

text \<open>What the consumer's \<^verbatim>\<open>select\<close> over its stop channel and the deliveries yields.\<close>

datatype arrival = Stopped | DeliveriesClosed | Delivered delivery

record gen_req =
  g_prompt :: string
  g_temperature :: float64
  g_max_tokens :: int

text \<open>
  Calls made when the process starts and stops and by the readiness probe. \<open>GormOpen\<close> takes
  the connection string and the level of GORM's log, \<open>SetPool\<close> the limits of the
  connection pool (open, idle, lifetime), \<open>NewRedisClient\<close> address, password and database.
  \<open>GoReconciler\<close> and \<open>GoListen\<close> start a goroutine.
\<close>

datatype gorm_log = LogWarn | LogInfo

datatype boot_cmd =
    GormOpen string gorm_log
  | GormDB
  | SetPool int int int
  | PingDB
  | AutoMigrateTask
  | CloseDB
  | NewRedisClient string string int
  | CloseRedis
  | AmqpDial string
  | GoReconciler
  | GoListen string
  | ShutdownHTTP int

section \<open>Programs\<close>

text \<open>
  One constructor per kind of call. \<open>SelectDone d\<close> is a \<^verbatim>\<open>select\<close> between a
  cancellation channel and \<^verbatim>\<open>time.After(d)\<close>; the reply is whether the cancellation won.
\<close>

datatype 'a prog =
    Return 'a
  | GormCreate task "goerror + task \<Rightarrow> 'a prog"
  | GormFirst cond "goerror + task \<Rightarrow> 'a prog"
  | GormFind query "goerror + task list \<Rightarrow> 'a prog"
  | GormCount "goerror + int \<Rightarrow> 'a prog"
  | GormExec stmt "goerror + int \<Rightarrow> 'a prog"
  | RedisGet string "goerror + bytes \<Rightarrow> 'a prog"
  | RedisDo redis_cmd "goerror option \<Rightarrow> 'a prog"
  | RedisSetNX string string int "goerror + bool \<Rightarrow> 'a prog"
  | RedisIncr string int "goerror + int \<Rightarrow> 'a prog"
  | Amqp amqp_cmd "goerror option \<Rightarrow> 'a prog"
  | AwaitConfirm "goerror + bool \<Rightarrow> 'a prog"
  | AwaitDelivery "arrival \<Rightarrow> 'a prog"
  | Generate gen_req "goerror + string list \<Rightarrow> 'a prog"
  | SelectDone int "bool \<Rightarrow> 'a prog"
  | NewUUID "uuid \<Rightarrow> 'a prog"
  | TimeNow "int \<Rightarrow> 'a prog"
  | Boot boot_cmd "goerror option \<Rightarrow> 'a prog"

text \<open>Sequential composition: the caller continues with the callee's result.\<close>

primrec pbind :: "'a prog \<Rightarrow> ('a \<Rightarrow> 'b prog) \<Rightarrow> 'b prog" where
  "pbind (Return a) f = f a"
| "pbind (GormCreate t k) f = GormCreate t (\<lambda>r. pbind (k r) f)"
| "pbind (GormFirst c k) f = GormFirst c (\<lambda>r. pbind (k r) f)"
| "pbind (GormFind q k) f = GormFind q (\<lambda>r. pbind (k r) f)"
| "pbind (GormCount k) f = GormCount (\<lambda>r. pbind (k r) f)"
| "pbind (GormExec s k) f = GormExec s (\<lambda>r. pbind (k r) f)"
| "pbind (RedisGet key k) f = RedisGet key (\<lambda>r. pbind (k r) f)"
| "pbind (RedisDo c k) f = RedisDo c (\<lambda>r. pbind (k r) f)"
| "pbind (RedisSetNX key v ttl k) f = RedisSetNX key v ttl (\<lambda>r. pbind (k r) f)"
| "pbind (RedisIncr key ttl k) f = RedisIncr key ttl (\<lambda>r. pbind (k r) f)"
| "pbind (Amqp c k) f = Amqp c (\<lambda>r. pbind (k r) f)"
| "pbind (AwaitConfirm k) f = AwaitConfirm (\<lambda>r. pbind (k r) f)"
| "pbind (AwaitDelivery k) f = AwaitDelivery (\<lambda>r. pbind (k r) f)"
| "pbind (Generate g k) f = Generate g (\<lambda>r. pbind (k r) f)"
| "pbind (SelectDone d k) f = SelectDone d (\<lambda>r. pbind (k r) f)"
| "pbind (NewUUID k) f = NewUUID (\<lambda>r. pbind (k r) f)"
| "pbind (TimeNow k) f = TimeNow (\<lambda>r. pbind (k r) f)"
| "pbind (Boot c k) f = Boot c (\<lambda>r. pbind (k r) f)"

lemma pbind_Return [simp]: "pbind p Return = p"
  by (induction p) simp_all

lemma pbind_assoc [simp]: "pbind (pbind p f) g = pbind p (\<lambda>a. pbind (f a) g)"
  by (induction p) simp_all

section \<open>The environment, and running a program in it\<close>

record 'w env =
  on_create :: "task \<Rightarrow> 'w \<Rightarrow> (goerror + task) \<times> 'w"
  on_first :: "cond \<Rightarrow> 'w \<Rightarrow> (goerror + task) \<times> 'w"
  on_find :: "query \<Rightarrow> 'w \<Rightarrow> (goerror + task list) \<times> 'w"
  on_count :: "'w \<Rightarrow> (goerror + int) \<times> 'w"
  on_exec :: "stmt \<Rightarrow> 'w \<Rightarrow> (goerror + int) \<times> 'w"
  on_get :: "string \<Rightarrow> 'w \<Rightarrow> (goerror + bytes) \<times> 'w"
  on_redis :: "redis_cmd \<Rightarrow> 'w \<Rightarrow> (goerror option) \<times> 'w"
  on_setnx :: "string \<Rightarrow> string \<Rightarrow> int \<Rightarrow> 'w \<Rightarrow> (goerror + bool) \<times> 'w"
  on_incr :: "string \<Rightarrow> int \<Rightarrow> 'w \<Rightarrow> (goerror + int) \<times> 'w"
  on_amqp :: "amqp_cmd \<Rightarrow> 'w \<Rightarrow> (goerror option) \<times> 'w"
  on_confirm :: "'w \<Rightarrow> (goerror + bool) \<times> 'w"
  on_delivery :: "'w \<Rightarrow> arrival \<times> 'w"
  on_generate :: "gen_req \<Rightarrow> 'w \<Rightarrow> (goerror + string list) \<times> 'w"
  on_select :: "int \<Rightarrow> 'w \<Rightarrow> bool \<times> 'w"
  on_uuid :: "'w \<Rightarrow> uuid \<times> 'w"
  on_now :: "'w \<Rightarrow> int \<times> 'w"
  on_boot :: "boot_cmd \<Rightarrow> 'w \<Rightarrow> (goerror option) \<times> 'w"

primrec run :: "'w env \<Rightarrow> 'a prog \<Rightarrow> 'w \<Rightarrow> 'a \<times> 'w" where
  "run E (Return a) w = (a, w)"
| "run E (GormCreate t k) w = (case on_create E t w of (r, w') \<Rightarrow> run E (k r) w')"
| "run E (GormFirst c k) w = (case on_first E c w of (r, w') \<Rightarrow> run E (k r) w')"
| "run E (GormFind q k) w = (case on_find E q w of (r, w') \<Rightarrow> run E (k r) w')"
| "run E (GormCount k) w = (case on_count E w of (r, w') \<Rightarrow> run E (k r) w')"
| "run E (GormExec s k) w = (case on_exec E s w of (r, w') \<Rightarrow> run E (k r) w')"
| "run E (RedisGet key k) w = (case on_get E key w of (r, w') \<Rightarrow> run E (k r) w')"
| "run E (RedisDo c k) w = (case on_redis E c w of (r, w') \<Rightarrow> run E (k r) w')"
| "run E (RedisSetNX key v ttl k) w = (case on_setnx E key v ttl w of (r, w') \<Rightarrow> run E (k r) w')"
| "run E (RedisIncr key ttl k) w = (case on_incr E key ttl w of (r, w') \<Rightarrow> run E (k r) w')"
| "run E (Amqp c k) w = (case on_amqp E c w of (r, w') \<Rightarrow> run E (k r) w')"
| "run E (AwaitConfirm k) w = (case on_confirm E w of (r, w') \<Rightarrow> run E (k r) w')"
| "run E (AwaitDelivery k) w = (case on_delivery E w of (r, w') \<Rightarrow> run E (k r) w')"
| "run E (Generate g k) w = (case on_generate E g w of (r, w') \<Rightarrow> run E (k r) w')"
| "run E (SelectDone d k) w = (case on_select E d w of (r, w') \<Rightarrow> run E (k r) w')"
| "run E (NewUUID k) w = (case on_uuid E w of (r, w') \<Rightarrow> run E (k r) w')"
| "run E (TimeNow k) w = (case on_now E w of (r, w') \<Rightarrow> run E (k r) w')"
| "run E (Boot c k) w = (case on_boot E c w of (r, w') \<Rightarrow> run E (k r) w')"

text \<open>A call and its reply.\<close>

datatype event =
     ECreate task "goerror + task"
  | EFirst cond "goerror + task"
  | EFind query "goerror + task list"
  | ECount "goerror + int"
  | EExec stmt "goerror + int"
  | EGet string "goerror + bytes"
  | ERedis redis_cmd "goerror option"
  | ESetNX string string int "goerror + bool"
  | EIncr string int "goerror + int"
  | EAmqp amqp_cmd "goerror option"
  | EConfirm "goerror + bool"
  | EDelivery arrival
  | EGenerate gen_req "goerror + string list"
  | ESelect int bool
  | EUUID uuid
  | ENow int
  | EBoot boot_cmd "goerror option"

primrec log :: "'w env \<Rightarrow> 'a prog \<Rightarrow> 'w \<Rightarrow> event list" where
  "log E (Return a) w = []"
| "log E (GormCreate t k) w =
     (case on_create E t w of (r, w') \<Rightarrow> ECreate t r # log E (k r) w')"
| "log E (GormFirst c k) w =
     (case on_first E c w of (r, w') \<Rightarrow> EFirst c r # log E (k r) w')"
| "log E (GormFind q k) w =
     (case on_find E q w of (r, w') \<Rightarrow> EFind q r # log E (k r) w')"
| "log E (GormCount k) w =
     (case on_count E w of (r, w') \<Rightarrow> ECount r # log E (k r) w')"
| "log E (GormExec s k) w =
     (case on_exec E s w of (r, w') \<Rightarrow> EExec s r # log E (k r) w')"
| "log E (RedisGet key k) w =
     (case on_get E key w of (r, w') \<Rightarrow> EGet key r # log E (k r) w')"
| "log E (RedisDo c k) w =
     (case on_redis E c w of (r, w') \<Rightarrow> ERedis c r # log E (k r) w')"
| "log E (RedisSetNX key v ttl k) w =
     (case on_setnx E key v ttl w of (r, w') \<Rightarrow> ESetNX key v ttl r # log E (k r) w')"
| "log E (RedisIncr key ttl k) w =
     (case on_incr E key ttl w of (r, w') \<Rightarrow> EIncr key ttl r # log E (k r) w')"
| "log E (Amqp c k) w =
     (case on_amqp E c w of (r, w') \<Rightarrow> EAmqp c r # log E (k r) w')"
| "log E (AwaitConfirm k) w =
     (case on_confirm E w of (r, w') \<Rightarrow> EConfirm r # log E (k r) w')"
| "log E (AwaitDelivery k) w =
     (case on_delivery E w of (r, w') \<Rightarrow> EDelivery r # log E (k r) w')"
| "log E (Generate g k) w =
     (case on_generate E g w of (r, w') \<Rightarrow> EGenerate g r # log E (k r) w')"
| "log E (SelectDone d k) w =
     (case on_select E d w of (r, w') \<Rightarrow> ESelect d r # log E (k r) w')"
| "log E (NewUUID k) w =
     (case on_uuid E w of (r, w') \<Rightarrow> EUUID r # log E (k r) w')"
| "log E (TimeNow k) w =
     (case on_now E w of (r, w') \<Rightarrow> ENow r # log E (k r) w')"
| "log E (Boot c k) w =
     (case on_boot E c w of (r, w') \<Rightarrow> EBoot c r # log E (k r) w')"

text \<open>Performing the next call of a program; \<open>None\<close> when it has returned.\<close>

primrec step :: "'w env \<Rightarrow> 'a prog \<Rightarrow> 'w \<Rightarrow> ('a prog \<times> event \<times> 'w) option" where
  "step E (Return a) w = None"
| "step E (GormCreate t k) w =
     (case on_create E t w of (r, w') \<Rightarrow> Some (k r, ECreate t r, w'))"
| "step E (GormFirst c k) w =
     (case on_first E c w of (r, w') \<Rightarrow> Some (k r, EFirst c r, w'))"
| "step E (GormFind q k) w =
     (case on_find E q w of (r, w') \<Rightarrow> Some (k r, EFind q r, w'))"
| "step E (GormCount k) w =
     (case on_count E w of (r, w') \<Rightarrow> Some (k r, ECount r, w'))"
| "step E (GormExec s k) w =
     (case on_exec E s w of (r, w') \<Rightarrow> Some (k r, EExec s r, w'))"
| "step E (RedisGet key k) w =
     (case on_get E key w of (r, w') \<Rightarrow> Some (k r, EGet key r, w'))"
| "step E (RedisDo c k) w =
     (case on_redis E c w of (r, w') \<Rightarrow> Some (k r, ERedis c r, w'))"
| "step E (RedisSetNX key v ttl k) w =
     (case on_setnx E key v ttl w of (r, w') \<Rightarrow> Some (k r, ESetNX key v ttl r, w'))"
| "step E (RedisIncr key ttl k) w =
     (case on_incr E key ttl w of (r, w') \<Rightarrow> Some (k r, EIncr key ttl r, w'))"
| "step E (Amqp c k) w =
     (case on_amqp E c w of (r, w') \<Rightarrow> Some (k r, EAmqp c r, w'))"
| "step E (AwaitConfirm k) w =
     (case on_confirm E w of (r, w') \<Rightarrow> Some (k r, EConfirm r, w'))"
| "step E (AwaitDelivery k) w =
     (case on_delivery E w of (r, w') \<Rightarrow> Some (k r, EDelivery r, w'))"
| "step E (Generate g k) w =
     (case on_generate E g w of (r, w') \<Rightarrow> Some (k r, EGenerate g r, w'))"
| "step E (SelectDone d k) w =
     (case on_select E d w of (r, w') \<Rightarrow> Some (k r, ESelect d r, w'))"
| "step E (NewUUID k) w =
     (case on_uuid E w of (r, w') \<Rightarrow> Some (k r, EUUID r, w'))"
| "step E (TimeNow k) w =
     (case on_now E w of (r, w') \<Rightarrow> Some (k r, ENow r, w'))"
| "step E (Boot c k) w =
     (case on_boot E c w of (r, w') \<Rightarrow> Some (k r, EBoot c r, w'))"

text \<open>The reply in an event, and the new state, are the environment's answer.\<close>

fun answers :: "'w env \<Rightarrow> 'w \<Rightarrow> event \<Rightarrow> 'w \<Rightarrow> bool" where
  "answers E w (ECreate t r) w' \<longleftrightarrow> on_create E t w = (r, w')"
| "answers E w (EFirst c r) w' \<longleftrightarrow> on_first E c w = (r, w')"
| "answers E w (EFind q r) w' \<longleftrightarrow> on_find E q w = (r, w')"
| "answers E w (ECount r) w' \<longleftrightarrow> on_count E w = (r, w')"
| "answers E w (EExec s r) w' \<longleftrightarrow> on_exec E s w = (r, w')"
| "answers E w (EGet key r) w' \<longleftrightarrow> on_get E key w = (r, w')"
| "answers E w (ERedis c r) w' \<longleftrightarrow> on_redis E c w = (r, w')"
| "answers E w (ESetNX key v ttl r) w' \<longleftrightarrow> on_setnx E key v ttl w = (r, w')"
| "answers E w (EIncr key ttl r) w' \<longleftrightarrow> on_incr E key ttl w = (r, w')"
| "answers E w (EAmqp c r) w' \<longleftrightarrow> on_amqp E c w = (r, w')"
| "answers E w (EConfirm r) w' \<longleftrightarrow> on_confirm E w = (r, w')"
| "answers E w (EDelivery r) w' \<longleftrightarrow> on_delivery E w = (r, w')"
| "answers E w (EGenerate g r) w' \<longleftrightarrow> on_generate E g w = (r, w')"
| "answers E w (ESelect d r) w' \<longleftrightarrow> on_select E d w = (r, w')"
| "answers E w (EUUID r) w' \<longleftrightarrow> on_uuid E w = (r, w')"
| "answers E w (ENow r) w' \<longleftrightarrow> on_now E w = (r, w')"
| "answers E w (EBoot c r) w' \<longleftrightarrow> on_boot E c w = (r, w')"

lemma run_pbind [simp]:
  "run E (pbind p f) w = (case run E p w of (a, w') \<Rightarrow> run E (f a) w')"
  by (induction p arbitrary: w) (simp_all split: prod.splits)

lemma log_pbind [simp]:
  "log E (pbind p f) w = (case run E p w of (a, w') \<Rightarrow> log E p w @ log E (f a) w')"
  by (induction p arbitrary: w) (simp_all split: prod.splits)

lemma step_answers: "step E p w = Some (p', ev, w') \<Longrightarrow> answers E w ev w'"
  by (cases p) (auto split: prod.splits)

lemma step_run: "step E p w = Some (p', ev, w') \<Longrightarrow> run E p w = run E p' w'"
  by (cases p) (auto split: prod.splits)

lemma step_log: "step E p w = Some (p', ev, w') \<Longrightarrow> log E p w = ev # log E p' w'"
  by (cases p) (auto split: prod.splits)

section \<open>Properties of every call a program can make\<close>

primrec only :: "(event \<Rightarrow> bool) \<Rightarrow> 'a prog \<Rightarrow> bool" where
  "only P (Return a) \<longleftrightarrow> True"
| "only P (GormCreate t k) \<longleftrightarrow> (\<forall>r. P (ECreate t r) \<and> only P (k r))"
| "only P (GormFirst c k) \<longleftrightarrow> (\<forall>r. P (EFirst c r) \<and> only P (k r))"
| "only P (GormFind q k) \<longleftrightarrow> (\<forall>r. P (EFind q r) \<and> only P (k r))"
| "only P (GormCount k) \<longleftrightarrow> (\<forall>r. P (ECount r) \<and> only P (k r))"
| "only P (GormExec s k) \<longleftrightarrow> (\<forall>r. P (EExec s r) \<and> only P (k r))"
| "only P (RedisGet key k) \<longleftrightarrow> (\<forall>r. P (EGet key r) \<and> only P (k r))"
| "only P (RedisDo c k) \<longleftrightarrow> (\<forall>r. P (ERedis c r) \<and> only P (k r))"
| "only P (RedisSetNX key v ttl k) \<longleftrightarrow> (\<forall>r. P (ESetNX key v ttl r) \<and> only P (k r))"
| "only P (RedisIncr key ttl k) \<longleftrightarrow> (\<forall>r. P (EIncr key ttl r) \<and> only P (k r))"
| "only P (Amqp c k) \<longleftrightarrow> (\<forall>r. P (EAmqp c r) \<and> only P (k r))"
| "only P (AwaitConfirm k) \<longleftrightarrow> (\<forall>r. P (EConfirm r) \<and> only P (k r))"
| "only P (AwaitDelivery k) \<longleftrightarrow> (\<forall>r. P (EDelivery r) \<and> only P (k r))"
| "only P (Generate g k) \<longleftrightarrow> (\<forall>r. P (EGenerate g r) \<and> only P (k r))"
| "only P (SelectDone d k) \<longleftrightarrow> (\<forall>r. P (ESelect d r) \<and> only P (k r))"
| "only P (NewUUID k) \<longleftrightarrow> (\<forall>r. P (EUUID r) \<and> only P (k r))"
| "only P (TimeNow k) \<longleftrightarrow> (\<forall>r. P (ENow r) \<and> only P (k r))"
| "only P (Boot c k) \<longleftrightarrow> (\<forall>r. P (EBoot c r) \<and> only P (k r))"

text \<open>
  \<open>always P h p\<close>: with the events \<open>h\<close> behind it, every next event \<open>e\<close> of \<open>p\<close>
  satisfies \<open>P\<close> of the events before it and \<open>e\<close>, whatever the replies are.
\<close>

primrec always :: "(event list \<Rightarrow> event \<Rightarrow> bool) \<Rightarrow> event list \<Rightarrow> 'a prog \<Rightarrow> bool" where
  "always P h (Return a) \<longleftrightarrow> True"
| "always P h (GormCreate t k) \<longleftrightarrow>
     (\<forall>r. P h (ECreate t r) \<and> always P (h @ [ECreate t r]) (k r))"
| "always P h (GormFirst c k) \<longleftrightarrow>
     (\<forall>r. P h (EFirst c r) \<and> always P (h @ [EFirst c r]) (k r))"
| "always P h (GormFind q k) \<longleftrightarrow>
     (\<forall>r. P h (EFind q r) \<and> always P (h @ [EFind q r]) (k r))"
| "always P h (GormCount k) \<longleftrightarrow>
     (\<forall>r. P h (ECount r) \<and> always P (h @ [ECount r]) (k r))"
| "always P h (GormExec s k) \<longleftrightarrow>
     (\<forall>r. P h (EExec s r) \<and> always P (h @ [EExec s r]) (k r))"
| "always P h (RedisGet key k) \<longleftrightarrow>
     (\<forall>r. P h (EGet key r) \<and> always P (h @ [EGet key r]) (k r))"
| "always P h (RedisDo c k) \<longleftrightarrow>
     (\<forall>r. P h (ERedis c r) \<and> always P (h @ [ERedis c r]) (k r))"
| "always P h (RedisSetNX key v ttl k) \<longleftrightarrow>
     (\<forall>r. P h (ESetNX key v ttl r) \<and> always P (h @ [ESetNX key v ttl r]) (k r))"
| "always P h (RedisIncr key ttl k) \<longleftrightarrow>
     (\<forall>r. P h (EIncr key ttl r) \<and> always P (h @ [EIncr key ttl r]) (k r))"
| "always P h (Amqp c k) \<longleftrightarrow>
     (\<forall>r. P h (EAmqp c r) \<and> always P (h @ [EAmqp c r]) (k r))"
| "always P h (AwaitConfirm k) \<longleftrightarrow>
     (\<forall>r. P h (EConfirm r) \<and> always P (h @ [EConfirm r]) (k r))"
| "always P h (AwaitDelivery k) \<longleftrightarrow>
     (\<forall>r. P h (EDelivery r) \<and> always P (h @ [EDelivery r]) (k r))"
| "always P h (Generate g k) \<longleftrightarrow>
     (\<forall>r. P h (EGenerate g r) \<and> always P (h @ [EGenerate g r]) (k r))"
| "always P h (SelectDone d k) \<longleftrightarrow>
     (\<forall>r. P h (ESelect d r) \<and> always P (h @ [ESelect d r]) (k r))"
| "always P h (NewUUID k) \<longleftrightarrow>
     (\<forall>r. P h (EUUID r) \<and> always P (h @ [EUUID r]) (k r))"
| "always P h (TimeNow k) \<longleftrightarrow>
     (\<forall>r. P h (ENow r) \<and> always P (h @ [ENow r]) (k r))"
| "always P h (Boot c k) \<longleftrightarrow>
     (\<forall>r. P h (EBoot c r) \<and> always P (h @ [EBoot c r]) (k r))"

lemma only_pbind [intro!]:
  "only P p \<Longrightarrow> (\<And>a. only P (f a)) \<Longrightarrow> only P (pbind p f)"
  by (induction p) simp_all

lemma only_mono: "only P p \<Longrightarrow> (\<And>e. P e \<Longrightarrow> Q e) \<Longrightarrow> only Q p"
  by (induction p) simp_all

lemma only_always: "only P p \<Longrightarrow> (\<And>h e. P e \<Longrightarrow> Q h e) \<Longrightarrow> always Q h p"
  by (induction p arbitrary: h) simp_all

text \<open>The history may be shifted, and properties of the parts compose.\<close>

lemma always_shift:
  "always P h p \<Longrightarrow> (\<And>h' e. P h' e \<Longrightarrow> Q (g @ h') e) \<Longrightarrow> always Q (g @ h) p"
  by (induction p arbitrary: h) simp_all

lemma always_pbind_quiet:
  "always P h p \<Longrightarrow> (\<And>a. only Q (f a)) \<Longrightarrow> (\<And>h e. Q e \<Longrightarrow> P h e) \<Longrightarrow> always P h (pbind p f)"
  by (induction p arbitrary: h) (simp_all, blast intro: only_always)

lemma always_pbind_after:
  assumes "only Q p" and "\<And>h e. Q e \<Longrightarrow> P h e"
    and "\<And>a h'. list_all Q h' \<Longrightarrow> always P (h @ h') (f a)"
  shows "always P h (pbind p f)"
proof -
  have "always P (h @ g) (pbind p f)" if "list_all Q g" for g
    using assms(1) that
  proof (induction p arbitrary: g)
    case (Return a)
    then show ?case using assms(3) by simp
  qed (simp_all add: assms(2))
  from this [of "[]"] show ?thesis by simp
qed

lemma only_step:
  "step E p w = Some (p', ev, w') \<Longrightarrow> only P p \<Longrightarrow> P ev \<and> only P p'"
  by (cases p) (auto split: prod.splits)

lemma always_step:
  "step E p w = Some (p', ev, w') \<Longrightarrow> always P h p \<Longrightarrow> P h ev \<and> always P (h @ [ev]) p'"
  by (cases p) (auto split: prod.splits)

text \<open>\<open>each_after P h evs\<close>: every event of \<open>evs\<close> satisfies \<open>P\<close> of those before it.\<close>

fun each_after :: "(event list \<Rightarrow> event \<Rightarrow> bool) \<Rightarrow> event list \<Rightarrow> event list \<Rightarrow> bool" where
  "each_after P before [] \<longleftrightarrow> True"
| "each_after P before (ev # evs) \<longleftrightarrow> P before ev \<and> each_after P (before @ [ev]) evs"

lemma each_after_append:
  "each_after P h (xs @ ys) \<longleftrightarrow> each_after P h xs \<and> each_after P (h @ xs) ys"
  by (induction xs arbitrary: h) auto

lemma only_log: "only P p \<Longrightarrow> ev \<in> set (log E p w) \<Longrightarrow> P ev"
  by (induction p arbitrary: w) (auto split: prod.splits)

text \<open>Induction along one run: what each call leaves is again a run.\<close>

lemma run_induct [case_names Return step]:
  assumes ret: "\<And>a w. R (Return a) w"
    and stp: "\<And>p w p' ev w'. step E p w = Some (p', ev, w') \<Longrightarrow> R p' w' \<Longrightarrow> R p w"
  shows "R p w"
proof (induction p arbitrary: w)
  case (Return a)
  show ?case by (rule ret)
qed (rule stp, simp add: split_beta, blast)+

text \<open>What every call of the program keeps, its run keeps.\<close>

lemma run_invariant:
  assumes "only P p" and "I w" and "run E p w = (a, w')"
    and keep: "\<And>ev w w'. P ev \<Longrightarrow> answers E w ev w' \<Longrightarrow> I w \<Longrightarrow> I w'"
  shows "I w'"
  using assms(1-3)
proof (induction p w rule: run_induct [where E = E])
  case (Return x w)
  then show ?case by simp
next
  case (step p w p' ev u)
  from step.hyps step.prems have "P ev" "only P p'"
    by (blast dest: only_step)+
  moreover from step.hyps have "answers E w ev u" by (rule step_answers)
  ultimately show ?case
    using step step_run [OF step.hyps(1)] by (metis keep)
qed

text \<open>\<open>yields P p\<close>: whatever the replies are, a result of \<open>p\<close> satisfies \<open>P\<close>.\<close>

abbreviation yields :: "('a \<Rightarrow> bool) \<Rightarrow> 'a prog \<Rightarrow> bool" where
  "yields \<equiv> pred_prog"

lemma yields_calls [simp]:
  "yields P (Return a) \<longleftrightarrow> P a"
  "yields P (GormCreate t k1) \<longleftrightarrow> (\<forall>r. yields P (k1 r))"
  "yields P (GormFirst c k2) \<longleftrightarrow> (\<forall>r. yields P (k2 r))"
  "yields P (GormFind q k3) \<longleftrightarrow> (\<forall>r. yields P (k3 r))"
  "yields P (GormCount k4) \<longleftrightarrow> (\<forall>r. yields P (k4 r))"
  "yields P (GormExec s k5) \<longleftrightarrow> (\<forall>r. yields P (k5 r))"
  "yields P (RedisGet key k6) \<longleftrightarrow> (\<forall>r. yields P (k6 r))"
  "yields P (RedisDo rc k7) \<longleftrightarrow> (\<forall>r. yields P (k7 r))"
  "yields P (RedisSetNX key v ttl k8) \<longleftrightarrow> (\<forall>r. yields P (k8 r))"
  "yields P (RedisIncr key ttl k9) \<longleftrightarrow> (\<forall>r. yields P (k9 r))"
  "yields P (NewUUID k10) \<longleftrightarrow> (\<forall>u. yields P (k10 u))"
  "yields P (TimeNow k11) \<longleftrightarrow> (\<forall>t. yields P (k11 t))"
  "yields P (Boot b k12) \<longleftrightarrow> (\<forall>r. yields P (k12 r))"
  by (simp_all add: pred_fun_def)

lemma yields_pbind: "yields P p \<Longrightarrow> (\<And>a. P a \<Longrightarrow> yields Q (f a)) \<Longrightarrow> yields Q (pbind p f)"
  by (induction p) (simp_all add: pred_fun_def)

lemma yields_any: "yields (\<lambda>_. True) p"
  by (induction p) (simp_all add: pred_fun_def)

lemma yields_after: "(\<And>a. yields Q (f a)) \<Longrightarrow> yields Q (pbind p f)"
  by (rule yields_pbind [OF yields_any])

lemma yields_mono: "yields P p \<Longrightarrow> (\<And>a. P a \<Longrightarrow> Q a) \<Longrightarrow> yields Q p"
  by (induction p) (simp_all add: pred_fun_def)

lemma yields_run: "yields P p \<Longrightarrow> run E p w = (a, w') \<Longrightarrow> P a"
  by (induction p arbitrary: w) (auto simp: pred_fun_def split: prod.splits)

text \<open>
  Programs of several goroutines: a pool, any of which makes its next call. The result of
  a goroutine is dropped.
\<close>

definition forget :: "'a prog \<Rightarrow> unit prog" where
  "forget p = pbind p (\<lambda>_. Return ())"

lemma only_forget: "only P p \<Longrightarrow> only P (forget p)"
  unfolding forget_def by (intro only_pbind) simp_all

end
