(* ===== verification/Backend_Laws.thy ===== *)
theory Backend_Laws
  imports Effects
begin

text \<open>
  What the program relies on from the services around it, as named hypotheses over an
  environment and three observations of its state: the live rows of the tasks table, the
  entries of Redis, and the clock. They state documented behaviour of Postgres seen
  through GORM (soft delete, automatic time stamps, atomic statements), of Redis (an entry
  may expire or be evicted at any moment) and of a clock. A call that reports an error may
  nevertheless have taken effect, as when the connection is lost after the commit.
\<close>

type_synonym table = "uuid \<rightharpoonup> task"
type_synonym entries = "string \<rightharpoonup> bytes"

record 'w view =
  rows :: "'w \<Rightarrow> table"
  kv :: "'w \<Rightarrow> entries"
  clk :: "'w \<Rightarrow> int"

section \<open>The tasks table\<close>

text \<open>A live row is stored under its own identifier and has no deletion time.\<close>

definition table_ok :: "table \<Rightarrow> bool" where
  "table_ok m \<longleftrightarrow> finite (dom m) \<and> (\<forall>i t. m i = Some t \<longrightarrow> ID t = i \<and> DeletedAt t = None)"

fun apply_assign :: "assign \<Rightarrow> task \<Rightarrow> task" where
  "apply_assign (SetStatus s) t = t\<lparr>Status := s\<rparr>"
| "apply_assign (SetSummary s) t = t\<lparr>Summary := s\<rparr>"

definition map_rows :: "cond \<Rightarrow> (task \<Rightarrow> task option) \<Rightarrow> table \<Rightarrow> table" where
  "map_rows c f m = (\<lambda>i. case m i of None \<Rightarrow> None | Some t \<Rightarrow> if holds c t then f t else Some t)"

text \<open>The effect of a statement executed at time \<open>ts\<close>; GORM sets \<^verbatim>\<open>updated_at\<close>.\<close>

fun stmt_effect :: "int \<Rightarrow> stmt \<Rightarrow> table \<Rightarrow> table" where
  "stmt_effect ts (Updates c as) m =
     map_rows c (\<lambda>t. Some ((fold apply_assign as t)\<lparr>UpdatedAt := ts\<rparr>)) m"
| "stmt_effect ts (Save t) m =
     m(ID t := (if DeletedAt t = None then Some (t\<lparr>UpdatedAt := ts\<rparr>) else None))"
| "stmt_effect ts (Delete c) m = map_rows c (\<lambda>_. None) m"

definition matching :: "cond \<Rightarrow> table \<Rightarrow> uuid set" where
  "matching c m = {i. \<exists>t. m i = Some t \<and> holds c t}"

fun affected :: "stmt \<Rightarrow> table \<Rightarrow> int" where
  "affected (Updates c as) m = int (card (matching c m))"
| "affected (Delete c) m = int (card (matching c m))"
| "affected (Save t) m = 1"

text \<open>On insert GORM fills the creation and update times that are still zero.\<close>

definition stamp :: "int \<Rightarrow> task \<Rightarrow> task" where
  "stamp ts t = t\<lparr>
     CreatedAt := (if CreatedAt t = time_zero then ts else CreatedAt t),
     UpdatedAt := (if UpdatedAt t = time_zero then ts else UpdatedAt t)\<rparr>"

text \<open>The database keeps microseconds: a stored time may be up to one below the given one.\<close>

definition truncated :: "int \<Rightarrow> int \<Rightarrow> bool" where
  "truncated x y \<longleftrightarrow> x - 1000 < y \<and> y \<le> x"

definition stored_as :: "task \<Rightarrow> task \<Rightarrow> bool" where
  "stored_as t r \<longleftrightarrow>
     r = t\<lparr>CreatedAt := CreatedAt r, UpdatedAt := UpdatedAt r\<rparr> \<and>
     truncated (CreatedAt t) (CreatedAt r) \<and> truncated (UpdatedAt t) (UpdatedAt r)"

text \<open>
  The rows a query returns: the matching rows in the order asked for (rows with equal keys
  in any order), cut to the page. A negative limit means no limit.
\<close>

definition selected :: "query \<Rightarrow> table \<Rightarrow> task set" where
  "selected q m = {t \<in> ran m. \<forall>c. q_where q = Some c \<longrightarrow> holds c t}"

definition in_order :: "order \<Rightarrow> task list \<Rightarrow> bool" where
  "in_order ord ts =
     (case ord of CreatedAsc \<Rightarrow> sorted (map CreatedAt ts)
                | CreatedDesc \<Rightarrow> sorted (rev (map CreatedAt ts)))"

definition page :: "int \<Rightarrow> int \<Rightarrow> task list \<Rightarrow> task list" where
  "page limit offset ts =
     (let rest = drop (nat offset) ts in if 0 \<le> limit then take (nat limit) rest else rest)"

definition query_result :: "query \<Rightarrow> table \<Rightarrow> task list \<Rightarrow> bool" where
  "query_result q m ts \<longleftrightarrow>
     (\<exists>all. distinct all \<and> set all = selected q m \<and> in_order (q_order q) all \<and>
            ts = page (q_limit q) (q_offset q) all)"

text \<open>
  The table before and after one call, made between the times \<open>lo\<close> and \<open>hi\<close>. No other
  call than those listed touches the table.
\<close>

fun db_rel :: "int \<Rightarrow> int \<Rightarrow> table \<Rightarrow> event \<Rightarrow> table \<Rightarrow> bool" where
  "db_rel lo hi m (ECreate t (Inr t')) m' \<longleftrightarrow>
     (\<exists>ts r. lo \<le> ts \<and> ts \<le> hi \<and> t' = stamp ts t \<and> stored_as t' r \<and>
             m (ID t) = None \<and> m' = (if DeletedAt t = None then m(ID t \<mapsto> r) else m))"
| "db_rel lo hi m (ECreate t (Inl e)) m' \<longleftrightarrow>
     m' = m \<or>
     (\<exists>ts r. lo \<le> ts \<and> ts \<le> hi \<and> stored_as (stamp ts t) r \<and>
             m (ID t) = None \<and> m' = (if DeletedAt t = None then m(ID t \<mapsto> r) else m))"
| "db_rel lo hi m (EFirst c (Inr t)) m' \<longleftrightarrow> m' = m \<and> m (ID t) = Some t \<and> holds c t"
| "db_rel lo hi m (EFirst c (Inl e)) m' \<longleftrightarrow>
     m' = m \<and> (errors_Is e ErrRecordNotFound \<longrightarrow> matching c m = {})"
| "db_rel lo hi m (EFind q (Inr ts)) m' \<longleftrightarrow> m' = m \<and> query_result q m ts"
| "db_rel lo hi m (ECount (Inr n)) m' \<longleftrightarrow> m' = m \<and> n = int (card (dom m))"
| "db_rel lo hi m (EExec s (Inr n)) m' \<longleftrightarrow>
     n = affected s m \<and> (\<exists>ts. lo - 1000 < ts \<and> ts \<le> hi \<and> m' = stmt_effect ts s m)"
| "db_rel lo hi m (EExec s (Inl e)) m' \<longleftrightarrow>
     m' = m \<or> (\<exists>ts. lo - 1000 < ts \<and> ts \<le> hi \<and> m' = stmt_effect ts s m)"
| "db_rel lo hi m _ m' \<longleftrightarrow> m' = m"

text \<open>
  No error of GORM is the repository's own sentinel, and the errors it reports on
  statements other than \<^verbatim>\<open>First\<close> do not wrap it either.
\<close>

fun foreign_error :: "event \<Rightarrow> bool" where
  "foreign_error (ECreate _ (Inl e)) \<longleftrightarrow> \<not> errors_Is e ErrNotFound"
| "foreign_error (EFirst _ (Inl e)) \<longleftrightarrow> \<not> errors_Is e ErrNotFound"
| "foreign_error (EFind _ (Inl e)) \<longleftrightarrow> \<not> errors_Is e ErrNotFound"
| "foreign_error (ECount (Inl e)) \<longleftrightarrow> \<not> errors_Is e ErrNotFound"
| "foreign_error (EExec _ (Inl e)) \<longleftrightarrow> \<not> errors_Is e ErrNotFound"
| "foreign_error _ \<longleftrightarrow> True"

definition gorm_laws :: "'w env \<Rightarrow> 'w view \<Rightarrow> bool" where
  "gorm_laws E V \<longleftrightarrow>
     (\<forall>w. table_ok (rows V w)) \<and>
     (\<forall>w ev w'. answers E w ev w' \<longrightarrow>
        clk V w \<le> clk V w' \<and> foreign_error ev \<and>
        db_rel (clk V w) (clk V w') (rows V w) ev (rows V w'))"

lemma gorm_table_ok: "gorm_laws E V \<Longrightarrow> table_ok (rows V w)"
  by (simp add: gorm_laws_def)

lemma gorm_rel:
  "gorm_laws E V \<Longrightarrow> answers E w ev w' \<Longrightarrow>
   db_rel (clk V w) (clk V w') (rows V w) ev (rows V w')"
  by (simp add: gorm_laws_def)

lemma gorm_clock: "gorm_laws E V \<Longrightarrow> answers E w ev w' \<Longrightarrow> clk V w \<le> clk V w'"
  by (simp add: gorm_laws_def)

lemma gorm_foreign: "gorm_laws E V \<Longrightarrow> answers E w ev w' \<Longrightarrow> foreign_error ev"
  by (simp add: gorm_laws_def)

subsection \<open>Statements that address one row\<close>

lemma matching_id:
  "table_ok m \<Longrightarrow>
   matching (IdIs i) m = (if m i = None then {} else {i})"
  by (auto simp: matching_def table_ok_def)

lemma matching_id_status:
  "table_ok m \<Longrightarrow>
   matching (CondAnd (IdIs i) (StatusIs s)) m =
   (case m i of Some t \<Rightarrow> if Status t = s then {i} else {} | None \<Rightarrow> {})"
  by (auto simp: matching_def table_ok_def split: option.splits)

lemma map_rows_id:
  "table_ok m \<Longrightarrow>
   map_rows (IdIs i) f m = (case m i of None \<Rightarrow> m | Some t \<Rightarrow> m(i := f t))"
  by (auto simp: map_rows_def table_ok_def fun_eq_iff split: option.splits)

lemma map_rows_id_status:
  "table_ok m \<Longrightarrow>
   map_rows (CondAnd (IdIs i) (StatusIs s)) f m =
   (case m i of None \<Rightarrow> m | Some t \<Rightarrow> if Status t = s then m(i := f t) else m)"
  by (auto simp: map_rows_def table_ok_def fun_eq_iff split: option.splits)

lemmas one_row [law_simps] = matching_id matching_id_status map_rows_id map_rows_id_status

section \<open>Redis\<close>

text \<open>
  The effect of a command on the entries that are alive when it runs; a counter is stored
  as text, which is not modelled here.
\<close>

fun kv_effect :: "entries \<Rightarrow> event \<Rightarrow> entries" where
  "kv_effect m (ERedis (Set k v ttl) _) = m(k \<mapsto> v)"
| "kv_effect m (ERedis (Del k) _) = m(k := None)"
| "kv_effect m (ESetNX k v ttl _) = (if m k = None then m(k \<mapsto> Raw v) else m)"
| "kv_effect m _ = m"

fun kv_reply :: "entries \<Rightarrow> event \<Rightarrow> bool" where
  "kv_reply m (EGet k (Inr b)) \<longleftrightarrow> m k = Some b"
| "kv_reply m (EGet k (Inl e)) \<longleftrightarrow> (errors_Is e RedisNil \<longrightarrow> m k = None)"
| "kv_reply m (ESetNX k v ttl (Inr b)) \<longleftrightarrow> b = (m k = None)"
| "kv_reply m _ \<longleftrightarrow> True"

text \<open>An error reply leaves open whether the command ran.\<close>

fun failed :: "event \<Rightarrow> bool" where
  "failed (ERedis _ r) \<longleftrightarrow> r \<noteq> None"
| "failed (ESetNX _ _ _ r) \<longleftrightarrow> isl r"
| "failed _ \<longleftrightarrow> False"

definition kv_rel :: "entries \<Rightarrow> event \<Rightarrow> entries \<Rightarrow> bool" where
  "kv_rel m ev m' \<longleftrightarrow>
     kv_reply m ev \<and>
     (m' = kv_effect m ev \<or> failed ev \<and> m' = m \<or>
      (\<exists>k ttl r s. ev = EIncr k ttl r \<and> m' = m(k \<mapsto> Raw s)))"

text \<open>
  \<open>redis_laws\<close>: some entries may be gone when the command runs.
  \<open>redis_durable\<close> excludes that: the case in which Redis loses nothing while the
  program runs.
\<close>

definition redis_laws :: "'w env \<Rightarrow> 'w view \<Rightarrow> bool" where
  "redis_laws E V \<longleftrightarrow>
     (\<forall>w ev w'. answers E w ev w' \<longrightarrow> (\<exists>m. m \<subseteq>\<^sub>m kv V w \<and> kv_rel m ev (kv V w')))"

definition redis_durable :: "'w env \<Rightarrow> 'w view \<Rightarrow> bool" where
  "redis_durable E V \<longleftrightarrow> (\<forall>w ev w'. answers E w ev w' \<longrightarrow> kv_rel (kv V w) ev (kv V w'))"

lemma redis_durable_laws: "redis_durable E V \<Longrightarrow> redis_laws E V"
  unfolding redis_durable_def redis_laws_def by (meson map_le_refl)

lemma redis_rel:
  "redis_laws E V \<Longrightarrow> answers E w ev w' \<Longrightarrow> \<exists>m. m \<subseteq>\<^sub>m kv V w \<and> kv_rel m ev (kv V w')"
  by (simp add: redis_laws_def)

section \<open>Clock and identifiers\<close>

text \<open>
  \<open>uuid_wf\<close> is the canonical form of a UUID: 36 characters, hyphens at the four places,
  lower-case hexadecimal digits elsewhere.
\<close>

definition hex_char :: "char \<Rightarrow> bool" where
  "hex_char c \<longleftrightarrow> c \<in> set ''0123456789abcdef''"

definition uuid_wf :: "uuid \<Rightarrow> bool" where
  "uuid_wf u \<longleftrightarrow>
     (let s = uuid_String u in
      length s = 36 \<and>
      list_all (\<lambda>(i, c). if i \<in> {8, 13, 18, 23} then c = CHR ''-'' else hex_char c)
        (zip [0..<36] s))"

fun clock_rel :: "int \<Rightarrow> event \<Rightarrow> int \<Rightarrow> bool" where
  "clock_rel lo (ENow t) hi \<longleftrightarrow> lo \<le> t \<and> t \<le> hi"
| "clock_rel lo (EUUID u) hi \<longleftrightarrow> lo \<le> hi \<and> u \<noteq> uuid_Nil \<and> uuid_wf u"
| "clock_rel lo _ hi \<longleftrightarrow> lo \<le> hi"

definition clock_laws :: "'w env \<Rightarrow> 'w view \<Rightarrow> bool" where
  "clock_laws E V \<longleftrightarrow> (\<forall>w ev w'. answers E w ev w' \<longrightarrow> clock_rel (clk V w) ev (clk V w'))"

lemma clock_rel:
  "clock_laws E V \<Longrightarrow> answers E w ev w' \<Longrightarrow> clock_rel (clk V w) ev (clk V w')"
  by (simp add: clock_laws_def)

section \<open>Kinds of calls\<close>

fun db_event :: "event \<Rightarrow> bool" where
  "db_event (ECreate _ _) \<longleftrightarrow> True"
| "db_event (EFirst _ _) \<longleftrightarrow> True"
| "db_event (EFind _ _) \<longleftrightarrow> True"
| "db_event (ECount _) \<longleftrightarrow> True"
| "db_event (EExec _ _) \<longleftrightarrow> True"
| "db_event _ \<longleftrightarrow> False"

fun redis_event :: "event \<Rightarrow> bool" where
  "redis_event (EGet _ _) \<longleftrightarrow> True"
| "redis_event (ERedis _ _) \<longleftrightarrow> True"
| "redis_event (ESetNX _ _ _ _) \<longleftrightarrow> True"
| "redis_event (EIncr _ _ _) \<longleftrightarrow> True"
| "redis_event _ \<longleftrightarrow> False"

fun amqp_event :: "event \<Rightarrow> bool" where
  "amqp_event (EAmqp _ _) \<longleftrightarrow> True"
| "amqp_event (EConfirm _) \<longleftrightarrow> True"
| "amqp_event (EDelivery _) \<longleftrightarrow> True"
| "amqp_event _ \<longleftrightarrow> False"

lemma db_rel_frame [simp]: "\<not> db_event ev \<Longrightarrow> db_rel lo hi m ev m' \<longleftrightarrow> m' = m"
  by (cases ev) simp_all

lemma kv_rel_frame: "\<not> redis_event ev \<Longrightarrow> kv_rel m ev m' \<Longrightarrow> m' = m"
  by (cases ev) (simp_all add: kv_rel_def)

text \<open>A program without database calls leaves the table as it is.\<close>

lemma rows_frame:
  assumes "gorm_laws E V" and "only (\<lambda>ev. \<not> db_event ev) p" and "run E p w = (a, w')"
  shows "rows V w' = rows V w"
proof -
  have "(\<lambda>u. rows V u = rows V w) w'"
    by (rule run_invariant [OF assms(2) _ assms(3)]) (auto dest: gorm_rel [OF assms(1)])
  then show ?thesis .
qed

text \<open>No run turns the clock back.\<close>

lemma run_clock:
  assumes "gorm_laws E V" "run E p w = (a, w')"
  shows "clk V w \<le> clk V w'"
proof -
  have "only (\<lambda>ev. True) p" by (induction p) simp_all
  then have "(\<lambda>u. clk V w \<le> clk V u) w'"
    by (rule run_invariant [OF _ _ assms(2)]) (auto dest: gorm_clock [OF assms(1)])
  then show ?thesis .
qed

text \<open>A program without Redis calls adds nothing to the entries.\<close>

lemma kv_frame:
  assumes "redis_laws E V" and "only (\<lambda>ev. \<not> redis_event ev) p" and "run E p w = (a, w')"
  shows "kv V w' \<subseteq>\<^sub>m kv V w"
proof -
  have "(\<lambda>u. kv V u \<subseteq>\<^sub>m kv V w) w'"
    by (rule run_invariant [OF assms(2) _ assms(3)])
       (auto dest!: redis_rel [OF assms(1)] dest: kv_rel_frame intro: map_le_trans)
  then show ?thesis .
qed

lemma kv_frame_durable:
  assumes "redis_durable E V" and "only (\<lambda>ev. \<not> redis_event ev) p" and "run E p w = (a, w')"
  shows "kv V w' = kv V w"
proof -
  have "(\<lambda>u. kv V u = kv V w) w'"
    by (rule run_invariant [OF assms(2) _ assms(3)])
       (use assms(1) in \<open>auto simp: redis_durable_def dest!: kv_rel_frame\<close>)
  then show ?thesis .
qed

text \<open>The reply to one command when Redis loses nothing.\<close>

lemma del_durable:
  assumes "redis_durable E V" "on_redis E (Del k) w = (e, w')"
  shows "kv V w' = (kv V w)(k := None) \<or> e \<noteq> None \<and> kv V w' = kv V w"
proof -
  have "answers E w (ERedis (Del k) e) w'" using assms(2) by simp
  then have "kv_rel (kv V w) (ERedis (Del k) e) (kv V w')"
    using assms(1) by (simp add: redis_durable_def)
  then show ?thesis by (auto simp: kv_rel_def)
qed

lemma setnx_durable:
  assumes "redis_durable E V" "on_setnx E k v ttl w = (Inr ok, w')"
  shows "ok = (kv V w k = None) \<and>
         kv V w' = (if kv V w k = None then (kv V w)(k \<mapsto> Raw v) else kv V w)"
proof -
  have "answers E w (ESetNX k v ttl (Inr ok)) w'" using assms(2) by simp
  then have "kv_rel (kv V w) (ESetNX k v ttl (Inr ok)) (kv V w')"
    using assms(1) by (simp add: redis_durable_def)
  then show ?thesis by (simp add: kv_rel_def)
qed

lemma now_durable:
  assumes "redis_durable E V" "on_now E w = (t, w')"
  shows "kv V w' = kv V w"
  by (rule kv_frame_durable [OF assms(1), of "TimeNow Return"]) (simp_all add: assms(2))

end
