(* ===== verification/Json_Codec.thy ===== *)
theory Json_Codec
  imports Backend_Laws
begin

text \<open>
  What the program uses of \<^verbatim>\<open>encoding/json\<close>: structs with string, time, UUID and raw
  fields. Encoding lists the fields in declaration order under their tags; decoding
  assigns the members of an object one by one, matching a member's name to a tag exactly
  or else regardless of case, ignoring unknown members, letting later members override
  earlier ones and leaving a field unchanged on \<^verbatim>\<open>null\<close>; a member of the wrong type is
  an error of the whole call. The case folding is that of ASCII.

  The text forms of a time (RFC 3339 with nanoseconds) and of a UUID are parameters, a
  record \<open>lib\<close>; \<open>lib_ok\<close> says that they round-trip. The locale \<open>json_codec\<close> is what
  the clients of a message type rely on.
\<close>

section \<open>Text forms\<close>

record lib =
  time_Format :: "int \<Rightarrow> string"
  time_Parse :: "string \<Rightarrow> int option"
  uuid_Parse :: "string \<Rightarrow> uuid option"

text \<open>\<^verbatim>\<open>Time.MarshalJSON\<close> refuses years outside 0 to 9999.\<close>

definition time_in_range :: "int \<Rightarrow> bool" where
  "time_in_range t \<longleftrightarrow> - 62167219200 * second \<le> t \<and> t < 253402300800 * second"

definition lib_ok :: "lib \<Rightarrow> bool" where
  "lib_ok L \<longleftrightarrow>
     (\<forall>t. time_in_range t \<longrightarrow> time_Parse L (time_Format L t) = Some t) \<and>
     (\<forall>u. uuid_wf u \<longrightarrow> uuid_Parse L (uuid_String u) = Some u)"

lemma lib_time: "lib_ok L \<Longrightarrow> time_in_range t \<Longrightarrow> time_Parse L (time_Format L t) = Some t"
  by (simp add: lib_ok_def)

lemma lib_uuid: "lib_ok L \<Longrightarrow> uuid_wf u \<Longrightarrow> uuid_Parse L (uuid_String u) = Some u"
  by (simp add: lib_ok_def)

section \<open>Encoding and decoding fields\<close>

text \<open>The errors of the package; their messages are only logged.\<close>

definition json_error :: goerror where
  "json_error = Plain ''json''"

lemma json_error_not [simp]:
  "\<not> errors_Is json_error ErrNotFound" "json_error \<noteq> RedisNil"
  by (simp_all add: json_error_def)

definition marshal_time :: "lib \<Rightarrow> int \<Rightarrow> goerror + json" where
  "marshal_time L t = (if time_in_range t then Inr (JStr (time_Format L t)) else Inl json_error)"

fun into_string :: "json \<Rightarrow> string \<Rightarrow> string option" where
  "into_string (JStr s) old = Some s"
| "into_string JNull old = Some old"
| "into_string _ old = None"

fun into_time :: "lib \<Rightarrow> json \<Rightarrow> int \<Rightarrow> int option" where
  "into_time L (JStr s) old = time_Parse L s"
| "into_time L JNull old = Some old"
| "into_time L _ old = None"

fun into_uuid :: "lib \<Rightarrow> json \<Rightarrow> uuid \<Rightarrow> uuid option" where
  "into_uuid L (JStr s) old = uuid_Parse L s"
| "into_uuid L JNull old = Some old"
| "into_uuid L _ old = None"

section \<open>Decoding a struct\<close>

definition ascii_upper :: "char \<Rightarrow> char" where
  "ascii_upper c =
     (let n = of_char c :: nat in if 97 \<le> n \<and> n \<le> 122 then char_of (n - 32) else c)"

definition fold_name :: "string \<Rightarrow> string" where
  "fold_name s = map ascii_upper s"

text \<open>The tag that a member's name selects.\<close>

definition field_for :: "string list \<Rightarrow> string \<Rightarrow> string option" where
  "field_for tags key =
     (if key \<in> set tags then Some key else find (\<lambda>n. fold_name n = fold_name key) tags)"

fun decode_members ::
  "string list \<Rightarrow> (string \<Rightarrow> json \<Rightarrow> 's \<Rightarrow> 's option) \<Rightarrow> (string \<times> json) list \<Rightarrow> 's \<Rightarrow> 's option" where
  "decode_members tags assign [] s = Some s"
| "decode_members tags assign ((key, v) # kvs) s =
     (case field_for tags key of
        None \<Rightarrow> decode_members tags assign kvs s
      | Some tag \<Rightarrow>
          (case assign tag v s of
             None \<Rightarrow> None
           | Some s' \<Rightarrow> decode_members tags assign kvs s'))"

text \<open>\<^verbatim>\<open>json.Unmarshal\<close> into a struct that holds \<open>init\<close>.\<close>

definition unmarshal_struct ::
  "string list \<Rightarrow> (string \<Rightarrow> json \<Rightarrow> 's \<Rightarrow> 's option) \<Rightarrow> bytes \<Rightarrow> 's \<Rightarrow> goerror + 's" where
  "unmarshal_struct tags assign body init =
     (case body of
        Json (JObj kvs) \<Rightarrow>
          (case decode_members tags assign kvs init of None \<Rightarrow> Inl json_error | Some s \<Rightarrow> Inr s)
      | Json JNull \<Rightarrow> Inr init
      | _ \<Rightarrow> Inl json_error)"

lemma field_for_tag [simp]: "key \<in> set tags \<Longrightarrow> field_for tags key = Some key"
  by (simp add: field_for_def)

lemma unmarshal_struct_Raw [simp]:
  "unmarshal_struct tags assign (Raw s) init = Inl json_error"
  by (simp add: unmarshal_struct_def)

section \<open>The contract of a message type\<close>

locale json_codec =
  fixes marshal :: "'a \<Rightarrow> goerror + bytes"
    and unmarshal :: "bytes \<Rightarrow> goerror + 'a"
    and wire_ok :: "'a \<Rightarrow> bool"
  assumes round_trip: "wire_ok x \<Longrightarrow> \<exists>b. marshal x = Inr b \<and> unmarshal b = Inr x"
begin

lemma marshal_total: "wire_ok x \<Longrightarrow> marshal x \<noteq> Inl e"
  using round_trip by fastforce

lemma unmarshal_marshal: "wire_ok x \<Longrightarrow> marshal x = Inr b \<Longrightarrow> unmarshal b = Inr x"
  using round_trip by fastforce

lemma marshal_inj:
  assumes "wire_ok x" "wire_ok y" "marshal x = Inr b" "marshal y = Inr b"
  shows "x = y"
  using unmarshal_marshal [OF assms(1,3)] unmarshal_marshal [OF assms(2,4)] by simp

end

section \<open>The cached form of a task\<close>

definition task_tags :: "string list" where
  "task_tags =
     [''id'', ''title'', ''description'', ''status'', ''summary'', ''created_at'', ''updated_at'']"

definition assign_task :: "lib \<Rightarrow> string \<Rightarrow> json \<Rightarrow> task \<Rightarrow> task option" where
  "assign_task L tag v t =
     (if tag = ''id'' then map_option (\<lambda>x. t\<lparr>ID := x\<rparr>) (into_uuid L v (ID t))
      else if tag = ''title'' then map_option (\<lambda>x. t\<lparr>Title := x\<rparr>) (into_string v (Title t))
      else if tag = ''description''
        then map_option (\<lambda>x. t\<lparr>Description := x\<rparr>) (into_string v (Description t))
      else if tag = ''status'' then map_option (\<lambda>x. t\<lparr>Status := x\<rparr>) (into_string v (Status t))
      else if tag = ''summary'' then map_option (\<lambda>x. t\<lparr>Summary := x\<rparr>) (into_string v (Summary t))
      else if tag = ''created_at''
        then map_option (\<lambda>x. t\<lparr>CreatedAt := x\<rparr>) (into_time L v (CreatedAt t))
      else if tag = ''updated_at''
        then map_option (\<lambda>x. t\<lparr>UpdatedAt := x\<rparr>) (into_time L v (UpdatedAt t))
      else Some t)"

text \<open>\<open>Summary\<close> is omitted when empty; \<open>DeletedAt\<close> never leaves the process.\<close>

definition marshal_task :: "lib \<Rightarrow> task \<Rightarrow> goerror + bytes" where
  "marshal_task L t =
     (case marshal_time L (CreatedAt t) of
        Inl e \<Rightarrow> Inl e
      | Inr c \<Rightarrow>
          (case marshal_time L (UpdatedAt t) of
             Inl e \<Rightarrow> Inl e
           | Inr u \<Rightarrow>
               Inr (Json (JObj
                 ([(''id'', JStr (uuid_String (ID t))), (''title'', JStr (Title t)),
                   (''description'', JStr (Description t)), (''status'', JStr (Status t))] @
                  (if Summary t = '''' then [] else [(''summary'', JStr (Summary t))]) @
                  [(''created_at'', c), (''updated_at'', u)])))))"

definition unmarshal_task :: "lib \<Rightarrow> bytes \<Rightarrow> goerror + task" where
  "unmarshal_task L body = unmarshal_struct task_tags (assign_task L) body zero_task"

definition task_wire_ok :: "task \<Rightarrow> bool" where
  "task_wire_ok t \<longleftrightarrow>
     uuid_wf (ID t) \<and> time_in_range (CreatedAt t) \<and> time_in_range (UpdatedAt t) \<and>
     DeletedAt t = None"

interpretation task_codec:
  json_codec "marshal_task L" "unmarshal_task L" "\<lambda>t. lib_ok L \<and> task_wire_ok t" for L
  by unfold_locales
     (auto simp: marshal_task_def unmarshal_task_def unmarshal_struct_def marshal_time_def
        task_wire_ok_def task_tags_def assign_task_def zero_task_def lib_time lib_uuid)

end
