(* ===== verification/Go_Strconv.thy ===== *)
theory Go_Strconv
  imports Prelude
begin

text \<open>
  The integer conversions of \<^verbatim>\<open>strconv\<close> that the program uses: \<open>itoa\<close> prints in
  decimal, \<open>atoi\<close> reads an optional sign and decimal digits and refuses what does not fit
  a 64-bit integer. They round-trip.
\<close>

definition digit_char :: "nat \<Rightarrow> char" where
  "digit_char d = char_of (48 + d)"

definition char_digit :: "char \<Rightarrow> nat option" where
  "char_digit c = (let n = of_char c :: nat in if 48 \<le> n \<and> n \<le> 57 then Some (n - 48) else None)"

fun nat_text :: "nat \<Rightarrow> string" where
  "nat_text n = (if n < 10 then [digit_char n] else nat_text (n div 10) @ [digit_char (n mod 10)])"

declare nat_text.simps [simp del]

fun read_digits :: "nat \<Rightarrow> string \<Rightarrow> nat option" where
  "read_digits acc [] = Some acc"
| "read_digits acc (c # cs) =
     (case char_digit c of None \<Rightarrow> None | Some d \<Rightarrow> read_digits (10 * acc + d) cs)"

definition nat_of_text :: "string \<Rightarrow> nat option" where
  "nat_of_text s = (if s = [] then None else read_digits 0 s)"

definition int_text :: "int \<Rightarrow> string" where
  "int_text i = (if i < 0 then CHR ''-'' # nat_text (nat (- i)) else nat_text (nat i))"

definition int_of_text :: "string \<Rightarrow> int option" where
  "int_of_text s =
     (case s of
        [] \<Rightarrow> None
      | c # cs \<Rightarrow>
          if c = CHR ''-'' then map_option (\<lambda>n. - int n) (nat_of_text cs)
          else if c = CHR ''+'' then map_option int (nat_of_text cs)
          else map_option int (nat_of_text s))"

definition itoa :: "int \<Rightarrow> string" where
  "itoa i = int_text i"

definition atoi :: "string \<Rightarrow> int option" where
  "atoi s =
     (case int_of_text s of
        None \<Rightarrow> None
      | Some i \<Rightarrow> if - (2 ^ 63) \<le> i \<and> i < 2 ^ 63 then Some i else None)"

lemma char_digit_char [simp]: "d < 10 \<Longrightarrow> char_digit (digit_char d) = Some d"
  by (simp add: char_digit_def digit_char_def)

lemma nat_text_nonempty [simp]: "nat_text n \<noteq> []"
  by (subst nat_text.simps) simp

lemma read_digits_append:
  "read_digits acc (xs @ ys) =
     (case read_digits acc xs of None \<Rightarrow> None | Some acc' \<Rightarrow> read_digits acc' ys)"
  by (induction xs arbitrary: acc) (auto split: option.splits)

lemma read_nat_text: "read_digits 0 (nat_text n) = Some n"
proof (induction n rule: nat_text.induct)
  case (1 n)
  show ?case
    by (subst nat_text.simps) (use 1 in \<open>auto simp: read_digits_append\<close>)
qed

lemma nat_of_text_nat_text [simp]: "nat_of_text (nat_text n) = Some n"
  by (simp add: nat_of_text_def read_nat_text)

lemma nat_text_first_digit: "\<exists>d cs. nat_text n = digit_char d # cs \<and> d < 10"
proof (induction n rule: nat_text.induct)
  case (1 n)
  show ?case
  proof (cases "n < 10")
    case True
    then show ?thesis by (subst nat_text.simps) auto
  next
    case False
    with 1 obtain d cs where "nat_text (n div 10) = digit_char d # cs" "d < 10" by blast
    with False show ?thesis by (subst nat_text.simps) auto
  qed
qed

lemma digit_char_no_sign: "d < 10 \<Longrightarrow> digit_char d \<noteq> CHR ''-'' \<and> digit_char d \<noteq> CHR ''+''"
  using char_digit_char [of d] by (auto simp: char_digit_def)

lemma int_of_text_int_text [simp]: "int_of_text (int_text i) = Some i"
proof -
  obtain d cs where d: "nat_text (nat i) = digit_char d # cs" "d < 10"
    using nat_text_first_digit by blast
  then have "int_of_text (nat_text (nat i)) = Some (int (nat i))"
    using digit_char_no_sign [OF d(2)] nat_of_text_nat_text [of "nat i"]
    by (simp add: int_of_text_def)
  then show ?thesis
    by (auto simp: int_text_def) (simp add: int_of_text_def)
qed

lemma atoi_itoa: "- (2 ^ 63) \<le> i \<Longrightarrow> i < 2 ^ 63 \<Longrightarrow> atoi (itoa i) = Some i"
  by (simp add: atoi_def itoa_def)

lemma atoi_range: "atoi s = Some i \<Longrightarrow> - (2 ^ 63) \<le> i \<and> i < 2 ^ 63"
  by (auto simp: atoi_def split: option.splits if_splits)

section \<open>Evaluation\<close>

text \<open>The conversions without unary numbers.\<close>

function digits :: "int \<Rightarrow> string" where
  "digits i = (if i < 10 then [digit_char (nat i)] else digits (i div 10) @ [digit_char (nat (i mod 10))])"
  by pat_completeness auto
termination by (relation "measure nat") auto
declare digits.simps [simp del]

lemma digits_nat_text: "0 \<le> i \<Longrightarrow> digits i = nat_text (nat i)"
proof (induction i rule: digits.induct)
  case (1 i)
  show ?case
    by (subst digits.simps, subst nat_text.simps) (use 1 in \<open>auto simp: nat_div_distrib nat_mod_distrib\<close>)
qed

lemma int_text_code [code]:
  "int_text i = (if i < 0 then CHR ''-'' # digits (- i) else digits i)"
  by (simp add: int_text_def digits_nat_text)

fun read_int :: "int \<Rightarrow> string \<Rightarrow> int option" where
  "read_int acc [] = Some acc"
| "read_int acc (c # cs) =
     (case char_digit c of None \<Rightarrow> None | Some d \<Rightarrow> read_int (10 * acc + int d) cs)"

lemma read_int_digits: "read_int (int n) s = map_option int (read_digits n s)"
proof (induction s arbitrary: n)
  case (Cons c cs)
  from Cons [of "10 * n + d" for d] show ?case by (simp split: option.split)
qed simp

definition read_number :: "string \<Rightarrow> int option" where
  "read_number s = (if s = [] then None else read_int 0 s)"

lemma read_number: "map_option int (nat_of_text s) = read_number s"
  using read_int_digits [of 0 s] by (simp add: nat_of_text_def read_number_def)

lemma int_of_text_code [code]:
  "int_of_text s =
     (case s of
        [] \<Rightarrow> None
      | c # cs \<Rightarrow>
          if c = CHR ''-'' then map_option uminus (read_number cs)
          else if c = CHR ''+'' then read_number cs
          else read_number s)"
  by (simp add: int_of_text_def read_number [symmetric] option.map_comp comp_def split: list.split)

end
