(* ===== verification/Reference_Backend.thy ===== *)
theory Reference_Backend
  imports Json_Codec Go_Strconv
begin

text \<open>
  An in-memory instance of the services, used only to show that the hypotheses on them can
  hold together and to run the programs on concrete inputs. The table is a map together
  with a list of the identifiers in use, Redis a map; \<open>m_faults\<close> says which of the coming
  calls fail (none when it is used up), \<open>m_select\<close> which cancellations win,
  \<open>m_arrivals\<close> what the consumer receives.
\<close>

record mem =
  m_ids :: "uuid list"
  m_table :: table
  m_kv :: entries
  m_clock :: int
  m_uuids :: nat
  m_faults :: "bool list"
  m_reply :: "string list"
  m_select :: "bool list"
  m_arrivals :: "arrival list"

section \<open>The table\<close>

definition clean :: "uuid list \<Rightarrow> table \<Rightarrow> table" where
  "clean ids m =
     (\<lambda>i. if i \<in> set ids
          then (case m i of
                  None \<Rightarrow> None
                | Some t \<Rightarrow> if ID t = i \<and> DeletedAt t = None then Some t else None)
          else None)"

definition mem_rows :: "mem \<Rightarrow> table" where
  "mem_rows w = clean (m_ids w) (m_table w)"

definition mem_view :: "mem view" where
  "mem_view = \<lparr>rows = mem_rows, kv = m_kv, clk = m_clock\<rparr>"

lemma mem_view_simps [simp]:
  "rows mem_view = mem_rows" "kv mem_view = m_kv" "clk mem_view = m_clock"
  by (simp_all add: mem_view_def)

lemma clean_ok: "table_ok (clean ids m)"
proof -
  have "dom (clean ids m) \<subseteq> set ids" by (auto simp: clean_def split: if_splits)
  then have "finite (dom (clean ids m))" by (rule finite_subset) simp
  then show ?thesis by (auto simp: table_ok_def clean_def split: if_splits option.splits)
qed

lemma clean_id: "table_ok m \<Longrightarrow> dom m \<subseteq> set ids \<Longrightarrow> clean ids m = m"
  by (force simp: clean_def table_ok_def fun_eq_iff split: option.splits)

lemma dom_clean: "dom (clean ids m) \<subseteq> set ids"
  by (auto simp: clean_def split: if_splits)

lemma clean_clean [simp]: "clean ids (clean ids m) = clean ids m"
  by (intro clean_id clean_ok dom_clean)

definition mem_matching :: "cond \<Rightarrow> mem \<Rightarrow> task list" where
  "mem_matching c w =
     filter (holds c) (List.map_filter (mem_rows w) (remdups (m_ids w)))"

definition mem_all :: "mem \<Rightarrow> task list" where
  "mem_all w = List.map_filter (mem_rows w) (remdups (m_ids w))"

lemma set_mem_all: "set (mem_all w) = ran (mem_rows w)"
  using dom_clean [of "m_ids w" "m_table w"]
  by (force simp: mem_all_def map_filter_def ran_def mem_rows_def)

lemma table_ok_ID: "table_ok m \<Longrightarrow> m i = Some t \<Longrightarrow> ID t = i"
  by (simp add: table_ok_def)

lemma distinct_map_filter_ID:
  "table_ok m \<Longrightarrow> distinct is \<Longrightarrow> distinct (map ID (List.map_filter m is))"
proof (induction "is")
  case (Cons i "is")
  then show ?case
    by (auto simp: map_filter_simps table_ok_ID map_filter_def split: option.splits)
qed (simp add: map_filter_simps)

lemma distinct_mem_all: "distinct (map ID (mem_all w))"
  unfolding mem_all_def
  by (rule distinct_map_filter_ID) (simp_all add: mem_rows_def clean_ok)

lemma card_matching:
  assumes "table_ok m" "distinct (map ID ts)" "set ts = ran m"
  shows "card (matching c m) = length (filter (holds c) ts)"
proof -
  have "matching c m = ID ` set (filter (holds c) ts)"
    using assms(1,3) by (force simp: matching_def ran_def table_ok_def)
  moreover have "inj_on ID (set (filter (holds c) ts))"
    using assms(2) by (auto simp: distinct_map inj_on_def)
  moreover have "card (set (filter (holds c) ts)) = length (filter (holds c) ts)"
    using assms(2) by (intro distinct_card) (simp add: distinct_map)
  ultimately show ?thesis by (metis card_image)
qed

section \<open>Answering the calls\<close>

definition pop_fault :: "mem \<Rightarrow> bool \<times> mem" where
  "pop_fault w =
     (case m_faults w of [] \<Rightarrow> (False, w) | b # bs \<Rightarrow> (b, w\<lparr>m_faults := bs\<rparr>))"

definition faulty :: "goerror \<Rightarrow> (mem \<Rightarrow> (goerror + 'r) \<times> mem) \<Rightarrow> mem \<Rightarrow> (goerror + 'r) \<times> mem" where
  "faulty e f w = (case pop_fault w of (True, w') \<Rightarrow> (Inl e, w') | (False, w') \<Rightarrow> f w')"

definition faulty_cmd :: "goerror \<Rightarrow> (mem \<Rightarrow> mem) \<Rightarrow> mem \<Rightarrow> goerror option \<times> mem" where
  "faulty_cmd e f w =
     (case pop_fault w of (True, w') \<Rightarrow> (Some e, w') | (False, w') \<Rightarrow> (None, f w'))"

definition db_down :: goerror where "db_down = Plain ''database unavailable''"
definition redis_down :: goerror where "redis_down = Plain ''redis unavailable''"
definition amqp_down :: goerror where "amqp_down = Plain ''broker unavailable''"
definition llm_down :: goerror where "llm_down = Plain ''model unavailable''"

definition mem_create :: "task \<Rightarrow> mem \<Rightarrow> (goerror + task) \<times> mem" where
  "mem_create t w =
     (if mem_rows w (ID t) \<noteq> None then (Inl (Plain ''duplicate key''), w)
      else let t' = stamp (m_clock w) t in
        (Inr t',
         if DeletedAt t = None
         then w\<lparr>m_ids := ID t # m_ids w, m_table := (mem_rows w)(ID t \<mapsto> t')\<rparr> else w))"

definition mem_first :: "cond \<Rightarrow> mem \<Rightarrow> (goerror + task) \<times> mem" where
  "mem_first c w =
     (case filter (holds c) (mem_all w) of
        [] \<Rightarrow> (Inl ErrRecordNotFound, w) | t # _ \<Rightarrow> (Inr t, w))"

definition mem_find :: "query \<Rightarrow> mem \<Rightarrow> (goerror + task list) \<times> mem" where
  "mem_find q w =
     (let sel = sort_key CreatedAt
                  (filter (\<lambda>t. case q_where q of None \<Rightarrow> True | Some c \<Rightarrow> holds c t) (mem_all w));
          ts = (case q_order q of CreatedAsc \<Rightarrow> sel | CreatedDesc \<Rightarrow> rev sel)
      in (Inr (page (q_limit q) (q_offset q) ts), w))"

definition mem_exec :: "stmt \<Rightarrow> mem \<Rightarrow> (goerror + int) \<times> mem" where
  "mem_exec s w =
     (let n = (case s of
                 Updates c _ \<Rightarrow> int (length (filter (holds c) (mem_all w)))
               | Delete c \<Rightarrow> int (length (filter (holds c) (mem_all w)))
               | Save _ \<Rightarrow> 1);
          ids = (case s of Save t \<Rightarrow> ID t # m_ids w | _ \<Rightarrow> m_ids w)
      in (Inr n, w\<lparr>m_ids := ids, m_table := stmt_effect (m_clock w) s (mem_rows w)\<rparr>))"

definition mem_redis :: "redis_cmd \<Rightarrow> mem \<Rightarrow> mem" where
  "mem_redis c w =
     (case c of
        Set k v _ \<Rightarrow> w\<lparr>m_kv := (m_kv w)(k \<mapsto> v)\<rparr>
      | Del k \<Rightarrow> w\<lparr>m_kv := (m_kv w)(k := None)\<rparr>
      | PingRedis \<Rightarrow> w)"

definition mem_setnx :: "string \<Rightarrow> string \<Rightarrow> int \<Rightarrow> mem \<Rightarrow> (goerror + bool) \<times> mem" where
  "mem_setnx k v ttl w =
     (if m_kv w k = None then (Inr True, w\<lparr>m_kv := (m_kv w)(k \<mapsto> Raw v)\<rparr>) else (Inr False, w))"

text \<open>Counters in unary.\<close>

definition mem_incr :: "string \<Rightarrow> int \<Rightarrow> mem \<Rightarrow> (goerror + int) \<times> mem" where
  "mem_incr k ttl w =
     (let s = (case m_kv w k of Some (Raw s) \<Rightarrow> CHR ''1'' # s | _ \<Rightarrow> ''1'')
      in (Inr (int (length s)), w\<lparr>m_kv := (m_kv w)(k \<mapsto> Raw s)\<rparr>))"

text \<open>Sixteen identifiers, one after the other.\<close>

definition mem_uuid :: "nat \<Rightarrow> uuid" where
  "mem_uuid n =
     Uuid (''00000000-0000-4000-8000-00000000000'' @ [''0123456789abcdef'' ! (n mod 16)])"

definition mem_env :: "mem env" where
  "mem_env =
     \<lparr>on_create = (\<lambda>t. faulty db_down (mem_create t)),
      on_first = (\<lambda>c. faulty db_down (mem_first c)),
      on_find = (\<lambda>q. faulty db_down (mem_find q)),
      on_count = faulty db_down (\<lambda>w. (Inr (int (length (mem_all w))), w)),
      on_exec = (\<lambda>s. faulty db_down (mem_exec s)),
      on_get = (\<lambda>k. faulty redis_down
                 (\<lambda>w. (case m_kv w k of None \<Rightarrow> Inl RedisNil | Some b \<Rightarrow> Inr b, w))),
      on_redis = (\<lambda>c. faulty_cmd redis_down (mem_redis c)),
      on_setnx = (\<lambda>k v ttl. faulty redis_down (mem_setnx k v ttl)),
      on_incr = (\<lambda>k ttl. faulty redis_down (mem_incr k ttl)),
      on_amqp = (\<lambda>c. faulty_cmd amqp_down (\<lambda>w. w)),
      on_confirm = faulty amqp_down (\<lambda>w. (Inr True, w)),
      on_delivery = (\<lambda>w. case m_arrivals w of
                       [] \<Rightarrow> (Stopped, w) | a # as \<Rightarrow> (a, w\<lparr>m_arrivals := as\<rparr>)),
      on_generate = (\<lambda>g. faulty llm_down (\<lambda>w. (Inr (m_reply w), w))),
      on_select = (\<lambda>d w. case m_select w of
                     [] \<Rightarrow> (False, w) | b # bs \<Rightarrow> (b, w\<lparr>m_select := bs\<rparr>)),
      on_uuid = (\<lambda>w. (mem_uuid (m_uuids w), w\<lparr>m_uuids := Suc (m_uuids w)\<rparr>)),
      on_now = (\<lambda>w. (m_clock w, w\<lparr>m_clock := m_clock w + 1\<rparr>)),
      on_boot = (\<lambda>c. faulty_cmd db_down (\<lambda>w. w))\<rparr>"

definition mem_empty :: mem where
  "mem_empty =
     \<lparr>m_ids = [], m_table = Map.empty, m_kv = Map.empty, m_clock = 0, m_uuids = 1,
      m_faults = [], m_reply = [''a summary''], m_select = [], m_arrivals = []\<rparr>"

section \<open>The hypotheses hold of it\<close>

lemma mem_rows_ok: "table_ok (mem_rows w)"
  by (simp add: mem_rows_def clean_ok)

lemma mem_rows_dom: "dom (mem_rows w) \<subseteq> set (m_ids w)"
  by (simp add: mem_rows_def dom_clean)

text \<open>The table of a new state as a finite list, for evaluation.\<close>

definition tabulate :: "uuid list \<Rightarrow> table \<Rightarrow> (uuid \<times> task) list" where
  "tabulate ids m = List.map_filter (\<lambda>i. map_option (Pair i) (m i)) ids"

lemma map_of_tabulate: "dom m \<subseteq> set ids \<Longrightarrow> map_of (tabulate ids m) = m"
proof
  fix i assume d: "dom m \<subseteq> set ids"
  have "map_of (tabulate js m) i = (if i \<in> set js then m i else None)" for js
    by (induction js) (auto simp: tabulate_def map_filter_simps split: option.split)
  with d show "map_of (tabulate ids m) i = m i" by (metis domIff subsetD)
qed

lemma dom_stmt_effect:
  "dom (stmt_effect ts s (mem_rows w)) \<subseteq> set (case s of Save t \<Rightarrow> ID t # m_ids w | _ \<Rightarrow> m_ids w)"
  using mem_rows_dom [of w]
  by (cases s) (auto simp: map_rows_def split: option.splits if_splits)

lemma mem_exec_code [code]:
  "mem_exec s w =
     (let n = (case s of
                 Updates c _ \<Rightarrow> int (length (filter (holds c) (mem_all w)))
               | Delete c \<Rightarrow> int (length (filter (holds c) (mem_all w)))
               | Save _ \<Rightarrow> 1);
          ids = (case s of Save t \<Rightarrow> ID t # m_ids w | _ \<Rightarrow> m_ids w)
      in (Inr n, w\<lparr>m_ids := ids,
                   m_table := map_of (tabulate ids (stmt_effect (m_clock w) s (mem_rows w)))\<rparr>))"
  by (simp add: mem_exec_def Let_def map_of_tabulate [OF dom_stmt_effect])

lemma mem_rows_set:
  "table_ok m \<Longrightarrow> dom m \<subseteq> set ids \<Longrightarrow> mem_rows (w\<lparr>m_ids := ids, m_table := m\<rparr>) = m"
  by (simp add: mem_rows_def clean_id)

lemma pop_fault_rows [simp]: "mem_rows (w\<lparr>m_faults := bs\<rparr>) = mem_rows w"
  by (simp add: mem_rows_def)

lemma mem_rows_other [simp]:
  "mem_rows (w\<lparr>m_kv := e\<rparr>) = mem_rows w" "mem_rows (w\<lparr>m_clock := x\<rparr>) = mem_rows w"
  "mem_rows (w\<lparr>m_uuids := n\<rparr>) = mem_rows w" "mem_rows (w\<lparr>m_select := bs\<rparr>) = mem_rows w"
  "mem_rows (w\<lparr>m_arrivals := as\<rparr>) = mem_rows w"
  by (simp_all add: mem_rows_def)

lemma pop_fault_keeps:
  "pop_fault w = (b, w') \<Longrightarrow>
   mem_rows w' = mem_rows w \<and> m_kv w' = m_kv w \<and> m_clock w' = m_clock w"
  by (auto simp: pop_fault_def split: list.splits)

lemma stored_as_refl: "stored_as t t"
  by (simp add: stored_as_def truncated_def)

lemma stamp_simps [simp]:
  "ID (stamp ts t) = ID t" "DeletedAt (stamp ts t) = DeletedAt t" "Status (stamp ts t) = Status t"
  "Title (stamp ts t) = Title t" "Description (stamp ts t) = Description t"
  "Summary (stamp ts t) = Summary t"
  by (simp_all add: stamp_def)

lemma apply_assign_keeps [simp]:
  "ID (fold apply_assign as t) = ID t" "DeletedAt (fold apply_assign as t) = DeletedAt t"
proof -
  have "ID (apply_assign a t) = ID t \<and> DeletedAt (apply_assign a t) = DeletedAt t" for a t
    by (cases a) simp_all
  then show "ID (fold apply_assign as t) = ID t" "DeletedAt (fold apply_assign as t) = DeletedAt t"
    by (induction as arbitrary: t) simp_all
qed

lemma table_ok_upd:
  "table_ok m \<Longrightarrow> ID t = i \<Longrightarrow> DeletedAt t = None \<Longrightarrow> table_ok (m(i \<mapsto> t))"
  by (auto simp: table_ok_def)

lemma table_ok_stmt: "table_ok m \<Longrightarrow> table_ok (stmt_effect ts s m)"
proof -
  have dom: "dom (map_rows c f m) \<subseteq> dom m" for c f
    by (auto simp: map_rows_def split: option.splits)
  assume m: "table_ok m"
  then have fin: "finite (dom (map_rows c f m))" for c f
    by (metis dom finite_subset table_ok_def)
  show ?thesis
    using m fin by (cases s) (auto simp: table_ok_def map_rows_def split: option.splits if_splits)
qed

lemma dom_stmt:
  "dom (stmt_effect ts s m) \<subseteq> dom m \<union> (case s of Save t \<Rightarrow> {ID t} | _ \<Rightarrow> {})"
  by (cases s) (auto simp: map_rows_def split: option.splits if_splits)

lemma mem_create_rel:
  assumes "mem_create t w = (r, w')"
  shows "db_rel (m_clock w) (m_clock w') (mem_rows w) (ECreate t r) (mem_rows w') \<and>
         m_kv w' = m_kv w \<and> m_clock w' = m_clock w \<and> foreign_error (ECreate t r)"
proof (cases "mem_rows w (ID t)")
  case None
  have "mem_rows (w\<lparr>m_ids := ID t # m_ids w, m_table := (mem_rows w)(ID t \<mapsto> stamp (m_clock w) t)\<rparr>) =
      (mem_rows w)(ID t \<mapsto> stamp (m_clock w) t)" if "DeletedAt t = None"
    using mem_rows_dom [of w] that
    by (intro mem_rows_set table_ok_upd mem_rows_ok) auto
  with assms None show ?thesis
    by (auto simp: mem_create_def Let_def intro!: exI [of _ "m_clock w"] exI [of _ "stamp (m_clock w) t"]
        stored_as_refl split: if_splits)
qed (use assms in \<open>auto simp: mem_create_def\<close>)

lemma mem_first_rel:
  assumes "mem_first c w = (r, w')"
  shows "db_rel (m_clock w) (m_clock w') (mem_rows w) (EFirst c r) (mem_rows w') \<and>
         w' = w \<and> foreign_error (EFirst c r)"
proof (cases "filter (holds c) (mem_all w)")
  case Nil
  then have "matching c (mem_rows w) = {}"
    by (auto simp: matching_def filter_empty_conv set_mem_all ran_def)
  with Nil assms show ?thesis by (auto simp: mem_first_def)
next
  case (Cons t ts)
  then have "t \<in> set (filter (holds c) (mem_all w))" by simp
  then have "mem_rows w (ID t) = Some t" "holds c t"
    using mem_rows_ok [of w] by (auto simp: set_mem_all ran_def table_ok_def)
  with Cons assms show ?thesis by (auto simp: mem_first_def)
qed

lemma mem_find_rel:
  assumes "mem_find q w = (r, w')"
  shows "db_rel (m_clock w) (m_clock w') (mem_rows w) (EFind q r) (mem_rows w') \<and>
         w' = w \<and> foreign_error (EFind q r)"
proof -
  let ?sel = "sort_key CreatedAt
    (filter (\<lambda>t. case q_where q of None \<Rightarrow> True | Some c \<Rightarrow> holds c t) (mem_all w))"
  let ?all = "case q_order q of CreatedAsc \<Rightarrow> ?sel | CreatedDesc \<Rightarrow> rev ?sel"
  have "distinct (mem_all w)" using distinct_mem_all by (auto simp: distinct_map)
  then have "distinct ?all" by (simp split: order.split)
  moreover have "set ?all = selected q (mem_rows w)"
    by (auto simp: selected_def set_mem_all split: order.split option.splits)
  moreover have "in_order (q_order q) ?all"
    by (simp add: in_order_def rev_map split: order.split)
  ultimately have "query_result q (mem_rows w) (page (q_limit q) (q_offset q) ?all)"
    unfolding query_result_def by blast
  with assms show ?thesis by (auto simp: mem_find_def Let_def)
qed

lemma mem_exec_rel:
  assumes "mem_exec s w = (r, w')"
  shows "db_rel (m_clock w) (m_clock w') (mem_rows w) (EExec s r) (mem_rows w') \<and>
         m_kv w' = m_kv w \<and> m_clock w' = m_clock w \<and> foreign_error (EExec s r)"
proof -
  let ?ids = "case s of Save t \<Rightarrow> ID t # m_ids w | _ \<Rightarrow> m_ids w"
  let ?m = "stmt_effect (m_clock w) s (mem_rows w)"
  have "mem_rows (w\<lparr>m_ids := ?ids, m_table := ?m\<rparr>) = ?m"
    using mem_rows_dom [of w] dom_stmt [of "m_clock w" s "mem_rows w"]
    by (intro mem_rows_set table_ok_stmt mem_rows_ok) (auto split: stmt.splits)
  moreover have "card (matching c (mem_rows w)) = length (filter (holds c) (mem_all w))" for c
    by (rule card_matching) (simp_all add: mem_rows_ok distinct_mem_all set_mem_all)
  ultimately show ?thesis
    using assms by (cases s) (auto simp: mem_exec_def Let_def intro!: exI [of _ "m_clock w"])
qed

lemma mem_uuid_ok: "mem_uuid n \<noteq> uuid_Nil" "uuid_wf (mem_uuid n)"
proof -
  have "''0123456789abcdef'' ! (n mod 16) \<in> set ''0123456789abcdef''"
    by (rule nth_mem) simp
  then show "uuid_wf (mem_uuid n)"
    by (simp add: uuid_wf_def mem_uuid_def hex_char_def Let_def upt_rec [of _ 36] del: nth_Cons')
  show "mem_uuid n \<noteq> uuid_Nil"
    by (simp add: mem_uuid_def uuid_Nil_def)
qed

lemma mem_incr_keeps:
  "mem_incr k ttl w = (r, w') \<Longrightarrow>
   mem_rows w' = mem_rows w \<and> m_clock w' = m_clock w \<and> (\<exists>s. m_kv w' = (m_kv w)(k \<mapsto> Raw s))"
  by (auto simp: mem_incr_def Let_def)

text \<open>A call fails, or runs in a state that differs only in the fault plan.\<close>

lemma faultyE:
  assumes "faulty e f w = (r, w')"
  obtains (fail) "r = Inl e" "mem_rows w' = mem_rows w" "m_kv w' = m_kv w" "m_clock w' = m_clock w"
  | (ok) u where "f u = (r, w')" "mem_rows u = mem_rows w" "m_kv u = m_kv w" "m_clock u = m_clock w"
proof (cases "pop_fault w")
  case (Pair b u)
  note u = pop_fault_keeps [OF Pair]
  show ?thesis
  proof (cases b)
    case True
    with assms Pair u show ?thesis by (intro fail) (auto simp: faulty_def)
  next
    case False
    with assms Pair u show ?thesis by (intro ok [of u]) (auto simp: faulty_def)
  qed
qed

lemma faulty_cmdE:
  assumes "faulty_cmd e f w = (r, w')"
  obtains (fail) "r = Some e" "mem_rows w' = mem_rows w" "m_kv w' = m_kv w" "m_clock w' = m_clock w"
  | (ok) u where "r = None" "w' = f u" "mem_rows u = mem_rows w" "m_kv u = m_kv w"
      "m_clock u = m_clock w"
proof (cases "pop_fault w")
  case (Pair b u)
  note u = pop_fault_keeps [OF Pair]
  show ?thesis
  proof (cases b)
    case True
    with assms Pair u show ?thesis by (intro fail) (auto simp: faulty_cmd_def)
  next
    case False
    with assms Pair u show ?thesis by (intro ok [of u]) (auto simp: faulty_cmd_def)
  qed
qed

lemma down_errors [simp]:
  "\<not> errors_Is db_down e \<or> e = db_down" "\<not> errors_Is redis_down e \<or> e = redis_down"
  "db_down \<noteq> ErrNotFound" "db_down \<noteq> ErrRecordNotFound" "redis_down \<noteq> RedisNil"
  "\<not> errors_Is db_down ErrNotFound" "\<not> errors_Is db_down ErrRecordNotFound"
  "\<not> errors_Is redis_down RedisNil"
  by (simp_all add: db_down_def redis_down_def)

definition mem_law :: "mem \<Rightarrow> event \<Rightarrow> mem \<Rightarrow> bool" where
  "mem_law w ev w' \<longleftrightarrow>
     m_clock w \<le> m_clock w' \<and> foreign_error ev \<and>
     db_rel (m_clock w) (m_clock w') (mem_rows w) ev (mem_rows w') \<and>
     kv_rel (m_kv w) ev (m_kv w') \<and> clock_rel (m_clock w) ev (m_clock w')"

lemma mem_law_db:
  assumes "answers mem_env w ev w'" and "db_event ev"
  shows "mem_law w ev w'"
proof (cases ev)
  case (ECreate t r)
  with assms show ?thesis
    by (auto simp: mem_env_def mem_law_def kv_rel_def elim!: faultyE dest!: mem_create_rel)
next
  case (EFirst c r)
  with assms show ?thesis
    by (auto simp: mem_env_def mem_law_def kv_rel_def elim!: faultyE dest!: mem_first_rel)
next
  case (EFind q r)
  with assms show ?thesis
    by (auto simp: mem_env_def mem_law_def kv_rel_def elim!: faultyE dest!: mem_find_rel)
next
  case (ECount r)
  have "card (dom (mem_rows u)) = length (mem_all u)" for u
  proof -
    have "dom (mem_rows u) = set (map ID (mem_all u))"
      using mem_rows_ok [of u] by (force simp: set_mem_all ran_def table_ok_def)
    then show ?thesis using distinct_card [OF distinct_mem_all [of u]] by simp
  qed
  with assms ECount show ?thesis
    by (auto simp: mem_env_def mem_law_def kv_rel_def elim!: faultyE) (metis)+
next
  case (EExec s r)
  with assms show ?thesis
    by (auto simp: mem_env_def mem_law_def kv_rel_def elim!: faultyE dest!: mem_exec_rel)
qed (use assms(2) in simp_all)

lemma mem_law_redis:
  assumes "answers mem_env w ev w'" and "redis_event ev"
  shows "mem_law w ev w'"
proof (cases ev)
  case (EGet k r)
  with assms show ?thesis
    by (auto simp: mem_env_def mem_law_def kv_rel_def elim!: faultyE split: option.splits)
next
  case (ERedis c r)
  with assms show ?thesis
    by (cases c) (auto simp: mem_env_def mem_law_def kv_rel_def mem_redis_def elim!: faulty_cmdE)
next
  case (ESetNX k v ttl r)
  with assms show ?thesis
    by (auto simp: mem_env_def mem_law_def kv_rel_def mem_setnx_def elim!: faultyE split: if_splits)
next
  case (EIncr k ttl r)
  with assms show ?thesis
    by (fastforce simp: mem_env_def mem_law_def kv_rel_def elim!: faultyE dest!: mem_incr_keeps)
qed (use assms(2) in simp_all)

lemma mem_law_other:
  assumes "answers mem_env w ev w'" and "\<not> db_event ev" and "\<not> redis_event ev"
  shows "mem_law w ev w'"
  using assms
  by (cases ev)
     (auto simp: mem_env_def mem_law_def kv_rel_def mem_uuid_ok elim!: faultyE faulty_cmdE
        split: list.splits)

lemma mem_answers: "answers mem_env w ev w' \<Longrightarrow> mem_law w ev w'"
  using mem_law_db mem_law_redis mem_law_other by blast

lemma mem_gorm_laws: "gorm_laws mem_env mem_view"
  using mem_answers by (simp add: gorm_laws_def mem_rows_ok mem_law_def)

lemma mem_redis_durable: "redis_durable mem_env mem_view"
  using mem_answers by (simp add: redis_durable_def mem_law_def)

lemma mem_redis_laws: "redis_laws mem_env mem_view"
  by (rule redis_durable_laws [OF mem_redis_durable])

lemma mem_clock_laws: "clock_laws mem_env mem_view"
  using mem_answers by (simp add: clock_laws_def mem_law_def)

text \<open>Text forms that round-trip: a time as its nanoseconds in decimal.\<close>

definition mem_lib :: lib where
  "mem_lib = \<lparr>time_Format = int_text, time_Parse = int_of_text, uuid_Parse = (\<lambda>s. Some (Uuid s))\<rparr>"

lemma mem_lib_ok: "lib_ok mem_lib"
  by (simp add: lib_ok_def mem_lib_def)

lemmas mem_env_simps =
  mem_env_def mem_view_def faulty_def faulty_cmd_def pop_fault_def mem_empty_def
  mem_create_def mem_first_def mem_find_def mem_exec_def mem_redis_def mem_setnx_def
  mem_incr_def

section \<open>Sample states\<close>

definition sample_id :: uuid where "sample_id = mem_uuid 10"

definition sample_task :: "TaskStatus \<Rightarrow> task" where
  "sample_task st =
     \<lparr>ID = sample_id, Title = ''Write docs'', Description = ''the API'', Status = st,
      Summary = '''', CreatedAt = 10, UpdatedAt = 20, DeletedAt = None\<rparr>"

definition mem_with :: "task list \<Rightarrow> mem" where
  "mem_with ts =
     mem_empty\<lparr>m_ids := map ID ts, m_table := map_of (map (\<lambda>t. (ID t, t)) ts),
                m_clock := 30\<rparr>"

text \<open>Splitting a run into its result, which is computed, and its final state.\<close>

lemma run_fst: "fst (run E p w) = a \<Longrightarrow> run E p w = (a, snd (run E p w))"
  by (simp add: prod_eq_iff)

lemma run_obtain:
  assumes "fst (run E p w) = a"
  obtains w' where "run E p w = (a, w')"
  using run_fst [OF assms] by (rule that)

end
