(* ===== verification/Task_Repository.thy ===== *)
theory Task_Repository
  imports Reference_Backend
begin

text \<open>
  \<^verbatim>\<open>internal/repository/task_repository.go\<close> and the GORM hook of
  \<^verbatim>\<open>internal/model/task.go\<close>: the interface as a record of its methods, the
  GORM implementation as programs that issue statements, and the contract the service
  relies on (locale \<open>task_store\<close>), an abstract store without time stamps that every
  operation refines.
\<close>

declare stmt_effect.simps [simp del, law_simps]
declare affected.simps [simp del, law_simps]

section \<open>The interface\<close>

text \<open>\<^verbatim>\<open>Create\<close> fills the task in place, so on success its result is that task.\<close>

record task_repository =
  repo_Create :: "task \<Rightarrow> (goerror + task) prog"
  repo_GetByID :: "uuid \<Rightarrow> (goerror + task) prog"
  repo_List :: "int \<Rightarrow> int \<Rightarrow> (goerror + task list \<times> int) prog"
  repo_Update :: "task \<Rightarrow> goerror option prog"
  repo_UpdateStatus :: "uuid \<Rightarrow> TaskStatus \<Rightarrow> string \<Rightarrow> goerror option prog"
  repo_Delete :: "uuid \<Rightarrow> goerror option prog"
  repo_MarkProcessing :: "uuid \<Rightarrow> (goerror + bool) prog"
  repo_FindStale :: "int \<Rightarrow> int \<Rightarrow> int \<Rightarrow> (goerror + task list) prog"

section \<open>The GORM implementation\<close>

text \<open>GORM runs the hook on the task before it inserts the row.\<close>

definition BeforeCreate :: "task \<Rightarrow> task prog" where
  "BeforeCreate t =
     pbind (if ID t = uuid_Nil then NewUUID (\<lambda>u. Return (t\<lparr>ID := u\<rparr>)) else Return t)
       (\<lambda>t. Return (if Status t = '''' then t\<lparr>Status := TaskStatusPending\<rparr> else t))"

definition taskRepository_Create :: "task \<Rightarrow> (goerror + task) prog" where
  "taskRepository_Create t =
     pbind (BeforeCreate t) (\<lambda>t.
       GormCreate t (\<lambda>r. case r of
         Inl err \<Rightarrow> Return (Inl (errorf ''create task'' err))
       | Inr t' \<Rightarrow> Return (Inr t')))"

definition taskRepository_GetByID :: "uuid \<Rightarrow> (goerror + task) prog" where
  "taskRepository_GetByID i =
     GormFirst (IdIs i) (\<lambda>r. case r of
       Inl err \<Rightarrow>
         if errors_Is err ErrRecordNotFound then Return (Inl ErrNotFound)
         else Return (Inl (errorf ''get task'' err))
     | Inr t \<Rightarrow> Return (Inr t))"

definition taskRepository_List :: "int \<Rightarrow> int \<Rightarrow> (goerror + task list \<times> int) prog" where
  "taskRepository_List limit offset =
     GormCount (\<lambda>r. case r of
       Inl err \<Rightarrow> Return (Inl (errorf ''count tasks'' err))
     | Inr cnt \<Rightarrow>
         GormFind \<lparr>q_where = None, q_order = CreatedDesc, q_limit = limit, q_offset = offset\<rparr>
           (\<lambda>r. case r of
              Inl err \<Rightarrow> Return (Inl (errorf ''list tasks'' err))
            | Inr tasks \<Rightarrow> Return (Inr (tasks, cnt))))"

definition taskRepository_Update :: "task \<Rightarrow> goerror option prog" where
  "taskRepository_Update t =
     GormExec (Save t) (\<lambda>r. case r of
       Inl err \<Rightarrow> Return (Some (errorf ''update task'' err))
     | Inr _ \<Rightarrow> Return None)"

definition taskRepository_UpdateStatus :: "uuid \<Rightarrow> TaskStatus \<Rightarrow> string \<Rightarrow> goerror option prog" where
  "taskRepository_UpdateStatus i status summary =
     (let updates = [SetStatus status] @ (if summary \<noteq> '''' then [SetSummary summary] else [])
      in GormExec (Updates (IdIs i) updates) (\<lambda>res. case res of
           Inl err \<Rightarrow> Return (Some (errorf ''update task status'' err))
         | Inr n \<Rightarrow> if n = 0 then Return (Some ErrNotFound) else Return None))"

definition taskRepository_Delete :: "uuid \<Rightarrow> goerror option prog" where
  "taskRepository_Delete i =
     GormExec (Delete (IdIs i)) (\<lambda>res. case res of
       Inl err \<Rightarrow> Return (Some (errorf ''delete task'' err))
     | Inr n \<Rightarrow> if n = 0 then Return (Some ErrNotFound) else Return None)"

definition taskRepository_MarkProcessing :: "uuid \<Rightarrow> (goerror + bool) prog" where
  "taskRepository_MarkProcessing i =
     GormExec (Updates (CondAnd (IdIs i) (StatusIs TaskStatusPending))
                [SetStatus TaskStatusProcessing])
       (\<lambda>res. case res of
          Inl err \<Rightarrow> Return (Inl (errorf ''mark processing'' err))
        | Inr n \<Rightarrow> Return (Inr (n = 1)))"

definition taskRepository_FindStale :: "int \<Rightarrow> int \<Rightarrow> int \<Rightarrow> (goerror + task list) prog" where
  "taskRepository_FindStale pendingBefore processingBefore limit =
     (let limit = (if limit \<le> 0 then 100 else limit)
      in GormFind
           \<lparr>q_where = Some
              (CondOr (CondAnd (StatusIs TaskStatusPending) (CreatedBefore pendingBefore))
                      (CondAnd (StatusIs TaskStatusProcessing) (UpdatedBefore processingBefore))),
            q_order = CreatedAsc, q_limit = limit, q_offset = 0\<rparr>
           (\<lambda>r. case r of
              Inl err \<Rightarrow> Return (Inl (errorf ''find stale tasks'' err))
            | Inr tasks \<Rightarrow> Return (Inr tasks)))"

definition NewTaskRepository :: task_repository where
  "NewTaskRepository =
     \<lparr>repo_Create = taskRepository_Create,
      repo_GetByID = taskRepository_GetByID,
      repo_List = taskRepository_List,
      repo_Update = taskRepository_Update,
      repo_UpdateStatus = taskRepository_UpdateStatus,
      repo_Delete = taskRepository_Delete,
      repo_MarkProcessing = taskRepository_MarkProcessing,
      repo_FindStale = taskRepository_FindStale\<rparr>"

text \<open>\<^verbatim>\<open>repository.AutoMigrate\<close>.\<close>

definition repository_AutoMigrate :: "goerror option prog" where
  "repository_AutoMigrate =
     Boot AutoMigrateTask (\<lambda>r. Return (map_option (errorf ''auto-migrate'') r))"

lemmas repo_defs [go_defs] =
  taskRepository_Create_def taskRepository_GetByID_def taskRepository_List_def
  taskRepository_Update_def taskRepository_UpdateStatus_def taskRepository_Delete_def
  taskRepository_MarkProcessing_def taskRepository_FindStale_def BeforeCreate_def

lemma NewTaskRepository_simps [simp]:
  "repo_Create NewTaskRepository = taskRepository_Create"
  "repo_GetByID NewTaskRepository = taskRepository_GetByID"
  "repo_List NewTaskRepository = taskRepository_List"
  "repo_Update NewTaskRepository = taskRepository_Update"
  "repo_UpdateStatus NewTaskRepository = taskRepository_UpdateStatus"
  "repo_Delete NewTaskRepository = taskRepository_Delete"
  "repo_MarkProcessing NewTaskRepository = taskRepository_MarkProcessing"
  "repo_FindStale NewTaskRepository = taskRepository_FindStale"
  by (simp_all add: NewTaskRepository_def)

section \<open>The abstract store\<close>

text \<open>
  What the operations mean once the time stamps are dropped: a map from identifiers to
  tasks. Each operation is a function on it.
\<close>

definition erase :: "task \<Rightarrow> task" where
  "erase t = t\<lparr>CreatedAt := 0, UpdatedAt := 0\<rparr>"

definition store :: "'w view \<Rightarrow> 'w \<Rightarrow> table" where
  "store V w = (\<lambda>i. map_option erase (rows V w i))"

lemma store_of: "store V w i = map_option erase (rows V w i)"
  by (simp add: store_def)

definition claim_abs :: "uuid \<Rightarrow> table \<Rightarrow> bool \<times> table" where
  "claim_abs i m =
     (case m i of
        None \<Rightarrow> (False, m)
      | Some t \<Rightarrow>
          if Status t = TaskStatusPending
          then (True, m(i \<mapsto> t\<lparr>Status := TaskStatusProcessing\<rparr>)) else (False, m))"

definition status_abs :: "uuid \<Rightarrow> TaskStatus \<Rightarrow> string \<Rightarrow> table \<Rightarrow> goerror option \<times> table" where
  "status_abs i status summary m =
     (case m i of
        None \<Rightarrow> (Some ErrNotFound, m)
      | Some t \<Rightarrow>
          (None, m(i \<mapsto> t\<lparr>Status := status,
                           Summary := (if summary = '''' then Summary t else summary)\<rparr>)))"

definition delete_abs :: "uuid \<Rightarrow> table \<Rightarrow> goerror option \<times> table" where
  "delete_abs i m = (if m i = None then (Some ErrNotFound, m) else (None, m(i := None)))"

text \<open>The task that \<^verbatim>\<open>Create\<close> stores for a given one.\<close>

definition created_from :: "task \<Rightarrow> task \<Rightarrow> bool" where
  "created_from t t' \<longleftrightarrow>
     Title t' = Title t \<and> Description t' = Description t \<and> Summary t' = Summary t \<and>
     DeletedAt t' = DeletedAt t \<and>
     Status t' = (if Status t = '''' then TaskStatusPending else Status t) \<and>
     (ID t \<noteq> uuid_Nil \<longrightarrow> ID t' = ID t)"

text \<open>A row the reconciler's query selects, and the pages it may return.\<close>

definition is_stale :: "int \<Rightarrow> int \<Rightarrow> task \<Rightarrow> bool" where
  "is_stale pendingBefore processingBefore t \<longleftrightarrow>
     Status t = TaskStatusPending \<and> CreatedAt t < pendingBefore \<or>
     Status t = TaskStatusProcessing \<and> UpdatedAt t < processingBefore"

definition stale_page :: "int \<Rightarrow> int \<Rightarrow> nat \<Rightarrow> table \<Rightarrow> task list \<Rightarrow> bool" where
  "stale_page pb qb n m ts \<longleftrightarrow>
     (\<exists>all. distinct all \<and> set all = {t \<in> ran m. is_stale pb qb t} \<and>
            sorted (map CreatedAt all) \<and> ts = take n all)"

text \<open>The calls a repository may make: to the database, and for fresh identifiers.\<close>

fun store_event :: "event \<Rightarrow> bool" where
  "store_event (EUUID _) \<longleftrightarrow> True"
| "store_event ev \<longleftrightarrow> db_event ev"

lemma store_event_kinds:
  "store_event ev \<Longrightarrow> \<not> redis_event ev" "store_event ev \<Longrightarrow> \<not> amqp_event ev"
  by (cases ev; simp)+

section \<open>The contract\<close>

locale task_store =
  fixes R :: task_repository
    and laws :: "'w env \<Rightarrow> 'w view \<Rightarrow> bool"
  assumes create:
      "\<And>r. laws E V \<Longrightarrow> DeletedAt t = None \<Longrightarrow> run E (repo_Create R t) w = (r, w') \<Longrightarrow>
       (case r of
          Inr t' \<Rightarrow> created_from t t' \<and> store V w (ID t') = None \<and>
                    store V w' = (store V w)(ID t' \<mapsto> erase t')
        | Inl e \<Rightarrow> \<not> errors_Is e ErrNotFound \<and>
            (store V w' = store V w \<or>
             (\<exists>t'. created_from t t' \<and> store V w (ID t') = None \<and>
                   store V w' = (store V w)(ID t' \<mapsto> erase t'))))"
    and get:
      "\<And>r. laws E V \<Longrightarrow> run E (repo_GetByID R i) w = (r, w') \<Longrightarrow>
       rows V w' = rows V w \<and>
       (case r of
          Inr t \<Rightarrow> rows V w i = Some t
        | Inl e \<Rightarrow> errors_Is e ErrNotFound \<longrightarrow> rows V w i = None)"
    and claim:
      "\<And>r. laws E V \<Longrightarrow> run E (repo_MarkProcessing R i) w = (r, w') \<Longrightarrow>
       (case r of
          Inr b \<Rightarrow> claim_abs i (store V w) = (b, store V w')
        | Inl e \<Rightarrow> \<not> errors_Is e ErrNotFound \<and>
            (store V w' = store V w \<or> store V w' = snd (claim_abs i (store V w))))"
    and set_status:
      "\<And>r. laws E V \<Longrightarrow> run E (repo_UpdateStatus R i status summary) w = (r, w') \<Longrightarrow>
       (case r of
          None \<Rightarrow> status_abs i status summary (store V w) = (None, store V w')
        | Some e \<Rightarrow>
            if errors_Is e ErrNotFound then store V w i = None \<and> store V w' = store V w
            else store V w' = store V w \<or>
                 store V w' = snd (status_abs i status summary (store V w)))"
    and delete:
      "\<And>r. laws E V \<Longrightarrow> run E (repo_Delete R i) w = (r, w') \<Longrightarrow>
       (case r of
          None \<Rightarrow> delete_abs i (store V w) = (None, store V w')
        | Some e \<Rightarrow>
            if errors_Is e ErrNotFound then store V w i = None \<and> store V w' = store V w
            else store V w' = store V w \<or> store V w' = snd (delete_abs i (store V w)))"
    and stale:
      "\<And>r. laws E V \<Longrightarrow> run E (repo_FindStale R pb qb limit) w = (r, w') \<Longrightarrow>
       rows V w' = rows V w \<and>
       (case r of
          Inr ts \<Rightarrow> stale_page pb qb (if limit \<le> 0 then 100 else nat limit) (rows V w) ts
        | Inl e \<Rightarrow> \<not> errors_Is e ErrNotFound)"
    and calls:
      "only store_event (repo_Create R t)" "only store_event (repo_GetByID R i)"
      "only store_event (repo_MarkProcessing R i)"
      "only store_event (repo_UpdateStatus R i status summary)"
      "only store_event (repo_Delete R i)" "only store_event (repo_FindStale R pb qb limit)"
begin

lemma get_store:
  assumes "laws E V" "run E (repo_GetByID R i) w = (r, w')"
  shows "store V w' = store V w"
  using get [OF assms] by (simp add: store_def)

lemma claim_wins:
  assumes "laws E V" "run E (repo_MarkProcessing R i) w = (Inr True, w')"
  shows "\<exists>t. store V w i = Some t \<and> Status t = TaskStatusPending \<and>
             store V w' = (store V w)(i \<mapsto> t\<lparr>Status := TaskStatusProcessing\<rparr>)"
  using claim [OF assms] by (auto simp: claim_abs_def split: option.splits if_splits)

lemma claim_loses:
  assumes "laws E V" "run E (repo_MarkProcessing R i) w = (Inr False, w')"
  shows "store V w' = store V w \<and>
         (\<forall>t. store V w i = Some t \<longrightarrow> Status t \<noteq> TaskStatusPending)"
  using claim [OF assms] by (auto simp: claim_abs_def split: option.splits if_splits)

lemma status_set:
  assumes "laws E V" "run E (repo_UpdateStatus R i status summary) w = (None, w')"
  shows "\<exists>t. store V w i = Some t \<and>
             store V w' = (store V w)(i \<mapsto> t\<lparr>Status := status,
               Summary := (if summary = '''' then Summary t else summary)\<rparr>)"
  using set_status [OF assms] by (auto simp: status_abs_def split: option.splits)

end

section \<open>The implementation meets the contract\<close>

lemma erase_simps [simp]:
  "ID (erase t) = ID t" "Title (erase t) = Title t" "Description (erase t) = Description t"
  "Status (erase t) = Status t" "Summary (erase t) = Summary t" "DeletedAt (erase t) = DeletedAt t"
  by (simp_all add: erase_def)

lemma erase_stored: "stored_as t r \<Longrightarrow> erase r = erase t"
  by (cases t; cases r) (simp add: stored_as_def erase_def)

lemma exec_answers: "on_exec E s w = (r, w') \<Longrightarrow> answers E w (EExec s r) w'"
  by simp

text \<open>One statement that addresses a row, on the abstract store.\<close>

lemma store_update:
  assumes "table_ok (rows V w)"
    and "rows V w' = stmt_effect ts (Updates (IdIs i) as) (rows V w)"
  shows "store V w' =
     (case store V w i of None \<Rightarrow> store V w | Some t \<Rightarrow> (store V w)(i \<mapsto> fold apply_assign as t))"
proof -
  have comm: "apply_assign a (erase t) = erase (apply_assign a t)" for a t
    by (cases a) (simp_all add: erase_def)
  have "fold apply_assign as (erase t) = erase (fold apply_assign as t)" for t
    by (induction as arbitrary: t) (simp_all add: comm)
  moreover have "erase (t\<lparr>UpdatedAt := ts\<rparr>) = erase t" for t by (simp add: erase_def)
  ultimately show ?thesis
    using assms by (auto simp: store_def law_simps fun_eq_iff split: option.splits)
qed

lemma store_claim:
  assumes "table_ok (rows V w)"
    and "rows V w' = stmt_effect ts
           (Updates (CondAnd (IdIs i) (StatusIs TaskStatusPending)) [SetStatus TaskStatusProcessing])
           (rows V w)"
  shows "store V w' = snd (claim_abs i (store V w))"
  using assms
  by (auto simp: store_def claim_abs_def law_simps erase_def fun_eq_iff split: option.splits)

lemma affected_claim:
  "table_ok (rows V w) \<Longrightarrow>
   affected (Updates (CondAnd (IdIs i) (StatusIs TaskStatusPending)) as) (rows V w) =
     (if fst (claim_abs i (store V w)) then 1 else 0)"
  by (auto simp: store_def claim_abs_def law_simps split: option.splits)

lemma store_status:
  assumes "table_ok (rows V w)"
    and "rows V w' = stmt_effect ts
           (Updates (IdIs i) (SetStatus st # (if sm \<noteq> '''' then [SetSummary sm] else []))) (rows V w)"
  shows "store V w' = snd (status_abs i st sm (store V w))"
  using store_update [OF assms]
  by (auto simp: status_abs_def split: option.splits)

lemma affected_id:
  "table_ok (rows V w) \<Longrightarrow>
   affected (Updates (IdIs i) as) (rows V w) = (if store V w i = None then 0 else 1)"
  "table_ok (rows V w) \<Longrightarrow>
   affected (Delete (IdIs i)) (rows V w) = (if store V w i = None then 0 else 1)"
  by (auto simp: store_def law_simps split: option.splits)

lemma store_delete:
  assumes "table_ok (rows V w)" and "rows V w' = stmt_effect ts (Delete (IdIs i)) (rows V w)"
  shows "store V w' = snd (delete_abs i (store V w))"
  using assms
  by (auto simp: store_def delete_abs_def law_simps fun_eq_iff split: option.splits)

text \<open>What a statement's reply says about the state, under the laws.\<close>

lemma exec_Inr:
  assumes "gorm_laws E V" "on_exec E s w = (Inr n, w')"
  obtains ts where "n = affected s (rows V w)" "rows V w' = stmt_effect ts s (rows V w)"
  using gorm_rel [OF assms(1) exec_answers [OF assms(2)]] by auto

lemma exec_Inl:
  assumes "gorm_laws E V" "on_exec E s w = (Inl e, w')"
  obtains (unchanged) "rows V w' = rows V w" "\<not> errors_Is e ErrNotFound"
  | (applied) ts where "rows V w' = stmt_effect ts s (rows V w)" "\<not> errors_Is e ErrNotFound"
  using gorm_rel [OF assms(1) exec_answers [OF assms(2)]]
    gorm_foreign [OF assms(1) exec_answers [OF assms(2)]] by auto

lemma store_cong: "rows V w' = rows V w \<Longrightarrow> store V w' = store V w"
  by (simp add: store_def)

lemma MarkProcessing_refines:
  assumes L: "gorm_laws E V" and R: "run E (taskRepository_MarkProcessing i) w = (r, w')"
  shows "case r of
           Inr b \<Rightarrow> claim_abs i (store V w) = (b, store V w')
         | Inl e \<Rightarrow> \<not> errors_Is e ErrNotFound \<and>
             (store V w' = store V w \<or> store V w' = snd (claim_abs i (store V w)))"
proof -
  let ?s = "Updates (CondAnd (IdIs i) (StatusIs TaskStatusPending)) [SetStatus TaskStatusProcessing]"
  have ok: "table_ok (rows V w)" by (rule gorm_table_ok [OF L])
  obtain x u where x: "on_exec E ?s w = (x, u)" by fastforce
  show ?thesis
  proof (cases x)
    case (Inl e)
    from L x [unfolded Inl] show ?thesis
      by (rule exec_Inl) (use R x Inl in \<open>auto simp: taskRepository_MarkProcessing_def
        dest: store_cong store_claim [OF ok]\<close>)
  next
    case (Inr n)
    with L x obtain ts where "n = affected ?s (rows V w)" "rows V u = stmt_effect ts ?s (rows V w)"
      by (blast elim: exec_Inr)
    with R x Inr show ?thesis
      by (auto simp: taskRepository_MarkProcessing_def affected_claim [OF ok]
        store_claim [OF ok] prod_eq_iff)
  qed
qed

lemma UpdateStatus_refines:
  assumes L: "gorm_laws E V" and R: "run E (taskRepository_UpdateStatus i st sm) w = (r, w')"
  shows "case r of
           None \<Rightarrow> status_abs i st sm (store V w) = (None, store V w')
         | Some e \<Rightarrow>
             if errors_Is e ErrNotFound then store V w i = None \<and> store V w' = store V w
             else store V w' = store V w \<or> store V w' = snd (status_abs i st sm (store V w))"
proof -
  let ?s = "Updates (IdIs i) (SetStatus st # (if sm \<noteq> '''' then [SetSummary sm] else []))"
  have ok: "table_ok (rows V w)" by (rule gorm_table_ok [OF L])
  obtain x u where x: "on_exec E ?s w = (x, u)" by fastforce
  show ?thesis
  proof (cases x)
    case (Inl e)
    from L x [unfolded Inl] show ?thesis
      by (rule exec_Inl) (use R x Inl in \<open>auto simp: taskRepository_UpdateStatus_def Let_def
        dest: store_cong store_status [OF ok]\<close>)
  next
    case (Inr n)
    with L x obtain ts where n: "n = affected ?s (rows V w)" and u: "rows V u = stmt_effect ts ?s (rows V w)"
      by (blast elim: exec_Inr)
    from store_status [OF ok u] R x Inr n show ?thesis
      by (auto simp: taskRepository_UpdateStatus_def Let_def affected_id [OF ok] status_abs_def
        split: option.splits if_splits)
  qed
qed

lemma Delete_refines:
  assumes L: "gorm_laws E V" and R: "run E (taskRepository_Delete i) w = (r, w')"
  shows "case r of
           None \<Rightarrow> delete_abs i (store V w) = (None, store V w')
         | Some e \<Rightarrow>
             if errors_Is e ErrNotFound then store V w i = None \<and> store V w' = store V w
             else store V w' = store V w \<or> store V w' = snd (delete_abs i (store V w))"
proof -
  let ?s = "Delete (IdIs i)"
  have ok: "table_ok (rows V w)" by (rule gorm_table_ok [OF L])
  obtain x u where x: "on_exec E ?s w = (x, u)" by fastforce
  show ?thesis
  proof (cases x)
    case (Inl e)
    from L x [unfolded Inl] show ?thesis
      by (rule exec_Inl) (use R x Inl in \<open>auto simp: taskRepository_Delete_def
        dest: store_cong store_delete [OF ok]\<close>)
  next
    case (Inr n)
    with L x obtain ts where n: "n = affected ?s (rows V w)" and u: "rows V u = stmt_effect ts ?s (rows V w)"
      by (blast elim: exec_Inr)
    from store_delete [OF ok u] R x Inr n show ?thesis
      by (auto simp: taskRepository_Delete_def affected_id [OF ok] delete_abs_def split: if_splits)
  qed
qed

lemma GetByID_refines:
  assumes L: "gorm_laws E V" and R: "run E (taskRepository_GetByID i) w = (r, w')"
  shows "rows V w' = rows V w \<and>
         (case r of
            Inr t \<Rightarrow> rows V w i = Some t
          | Inl e \<Rightarrow> errors_Is e ErrNotFound \<longrightarrow> rows V w i = None)"
proof -
  have ok: "table_ok (rows V w)" by (rule gorm_table_ok [OF L])
  obtain x u where x: "on_first E (IdIs i) w = (x, u)" by fastforce
  then have a: "answers E w (EFirst (IdIs i) x) u" by simp
  show ?thesis
    using gorm_rel [OF L a] gorm_foreign [OF L a] R x
    by (cases x) (auto simp: taskRepository_GetByID_def matching_id [OF ok] split: if_splits)
qed

lemma BeforeCreate_result:
  "run E (BeforeCreate t) w = (t1, w1) \<Longrightarrow> created_from t t1"
  by (auto simp: BeforeCreate_def created_from_def split: prod.splits if_splits)

lemma created_stamp: "created_from t t1 \<Longrightarrow> created_from t (stamp ts t1)"
  by (simp add: created_from_def)

lemma BeforeCreate_calls: "only store_event (BeforeCreate t)"
  by (auto simp: BeforeCreate_def intro!: only_pbind)

lemma BeforeCreate_no_db: "only (\<lambda>ev. \<not> db_event ev) (BeforeCreate t)"
  by (auto simp: BeforeCreate_def intro!: only_pbind)

lemma BeforeCreate_rows:
  "gorm_laws E V \<Longrightarrow> run E (BeforeCreate t) w = (t1, w1) \<Longrightarrow> rows V w1 = rows V w"
  by (rule rows_frame [OF _ BeforeCreate_no_db])

lemma Create_refines:
  assumes L: "gorm_laws E V" and D: "DeletedAt t = None"
    and R: "run E (taskRepository_Create t) w = (r, w')"
  shows "case r of
           Inr t' \<Rightarrow> created_from t t' \<and> store V w (ID t') = None \<and>
                     store V w' = (store V w)(ID t' \<mapsto> erase t')
         | Inl e \<Rightarrow> \<not> errors_Is e ErrNotFound \<and>
             (store V w' = store V w \<or>
              (\<exists>t'. created_from t t' \<and> store V w (ID t') = None \<and>
                    store V w' = (store V w)(ID t' \<mapsto> erase t')))"
proof -
  obtain t1 w1 where b: "run E (BeforeCreate t) w = (t1, w1)" by fastforce
  note t1 = BeforeCreate_result [OF b] and w1 = BeforeCreate_rows [OF L b]
  have d: "DeletedAt t1 = None" using t1 D by (simp add: created_from_def)
  obtain x u where x: "on_create E t1 w1 = (x, u)" by fastforce
  then have a: "answers E w1 (ECreate t1 x) u" by simp
  have upd: "store V u = (store V w)(ID t1 \<mapsto> erase (stamp ts t1)) \<and> store V w (ID t1) = None"
    if "stored_as (stamp ts t1) r" "rows V w1 (ID t1) = None" "rows V u = (rows V w1)(ID t1 \<mapsto> r)"
    for ts r
    using that erase_stored [OF that(1)] w1 by (auto simp: store_def fun_eq_iff)
  show ?thesis
  proof (cases x)
    case (Inr t')
    with gorm_rel [OF L a] d R b x upd t1 show ?thesis
      by (auto simp: taskRepository_Create_def intro: created_stamp)
  next
    case (Inl e)
    have "rows V u = rows V w \<or>
        (\<exists>ts r. stored_as (stamp ts t1) r \<and> rows V w1 (ID t1) = None \<and>
                rows V u = (rows V w1)(ID t1 \<mapsto> r))"
      using gorm_rel [OF L a] d Inl w1 by auto
    then have "store V u = store V w \<or>
        (\<exists>ts. store V u = (store V w)(ID t1 \<mapsto> erase (stamp ts t1)) \<and> store V w (ID t1) = None)"
      using store_cong [of V u w] by (elim disjE exE conjE) (use upd in blast)+
    then have "store V u = store V w \<or>
        (\<exists>t'. created_from t t' \<and> store V w (ID t') = None \<and>
              store V u = (store V w)(ID t' \<mapsto> erase t'))"
    proof (elim disjE exE conjE)
      fix ts assume "store V u = (store V w)(ID t1 \<mapsto> erase (stamp ts t1))" "store V w (ID t1) = None"
      then show ?thesis
        using created_stamp [OF t1, of ts] by (intro disjI2 exI [of _ "stamp ts t1"]) simp
    qed simp
    moreover have "r = Inl (errorf ''create task'' e)" "w' = u"
      using R b x Inl by (simp_all add: taskRepository_Create_def)
    moreover have "\<not> errors_Is e ErrNotFound" using gorm_foreign [OF L a] Inl by simp
    ultimately show ?thesis by simp
  qed
qed

lemma FindStale_refines:
  assumes L: "gorm_laws E V" and R: "run E (taskRepository_FindStale pb qb limit) w = (r, w')"
  shows "rows V w' = rows V w \<and>
         (case r of
            Inr ts \<Rightarrow> stale_page pb qb (if limit \<le> 0 then 100 else nat limit) (rows V w) ts
          | Inl e \<Rightarrow> \<not> errors_Is e ErrNotFound)"
proof -
  let ?q = "\<lparr>q_where = Some
              (CondOr (CondAnd (StatusIs TaskStatusPending) (CreatedBefore pb))
                      (CondAnd (StatusIs TaskStatusProcessing) (UpdatedBefore qb))),
             q_order = CreatedAsc, q_limit = (if limit \<le> 0 then 100 else limit), q_offset = 0\<rparr>"
  obtain x u where x: "on_find E ?q w = (x, u)" by fastforce
  then have a: "answers E w (EFind ?q x) u" by simp
  have sel: "selected ?q m = {t \<in> ran m. is_stale pb qb t}" for m
    by (auto simp: selected_def is_stale_def)
  have "stale_page pb qb (if limit \<le> 0 then 100 else nat limit) m ts" if "query_result ?q m ts" for m ts
    using that unfolding query_result_def stale_page_def sel
    by (auto simp: in_order_def page_def)
  then show ?thesis
    using gorm_rel [OF L a] gorm_foreign [OF L a] R x
    by (cases x) (auto simp: taskRepository_FindStale_def Let_def)
qed

interpretation gorm_store: task_store NewTaskRepository gorm_laws
proof unfold_locales
  fix E :: "'w env" and V :: "'w view" and t w r w'
  assume "gorm_laws E V" "DeletedAt t = None" "run E (repo_Create NewTaskRepository t) w = (r, w')"
  then show "case r of
       Inr t' \<Rightarrow> created_from t t' \<and> store V w (ID t') = None \<and>
                 store V w' = (store V w)(ID t' \<mapsto> erase t')
     | Inl e \<Rightarrow> \<not> errors_Is e ErrNotFound \<and>
         (store V w' = store V w \<or>
          (\<exists>t'. created_from t t' \<and> store V w (ID t') = None \<and>
                store V w' = (store V w)(ID t' \<mapsto> erase t')))"
    by (intro Create_refines) simp_all
qed (simp_all add: GetByID_refines MarkProcessing_refines UpdateStatus_refines Delete_refines
       FindStale_refines repo_defs Let_def split: sum.split)

section \<open>Properties of the implementation\<close>

text \<open>
  C3: The claim is a compare-and-set. When \<^verbatim>\<open>MarkProcessing\<close> returns without an error
  it reports true exactly when the task exists and is pending; then the row is the old one
  with status processing and an update time taken during the call, and no other row
  changes. When it reports false, also for a task that does not exist, nothing changes.
\<close>

theorem MarkProcessing_compare_and_set:
  assumes "gorm_laws E V"
    and "run E (taskRepository_MarkProcessing i) w = (Inr claimed, w')"
  shows "(claimed \<longleftrightarrow> (\<exists>t. rows V w i = Some t \<and> Status t = TaskStatusPending)) \<and>
         (if claimed
          then \<exists>t ts. rows V w i = Some t \<and> clk V w - 1000 < ts \<and> ts \<le> clk V w' \<and>
                 rows V w' = (rows V w)(i \<mapsto> t\<lparr>Status := TaskStatusProcessing, UpdatedAt := ts\<rparr>)
          else rows V w' = rows V w)"
proof -
  let ?s = "Updates (CondAnd (IdIs i) (StatusIs TaskStatusPending)) [SetStatus TaskStatusProcessing]"
  have ok: "table_ok (rows V w)" by (rule gorm_table_ok [OF assms(1)])
  obtain n where x: "on_exec E ?s w = (Inr n, w')" and n: "claimed = (n = 1)"
    using assms(2) by (auto simp: taskRepository_MarkProcessing_def split: prod.splits sum.splits)
  obtain ts where "n = affected ?s (rows V w)" "clk V w - 1000 < ts" "ts \<le> clk V w'"
      "rows V w' = stmt_effect ts ?s (rows V w)"
    using gorm_rel [OF assms(1) exec_answers [OF x]] by auto
  then show ?thesis
    using n by (cases "rows V w i") (auto simp: law_simps ok)
qed

theorem MarkProcessing_compare_and_set_witness:
  "\<exists>w'. run mem_env (taskRepository_MarkProcessing sample_id)
           (mem_with [sample_task TaskStatusPending]) = (Inr True, w') \<and>
        (\<exists>t. mem_rows w' sample_id = Some t \<and> Status t = TaskStatusProcessing)"
proof -
  let ?w = "mem_with [sample_task TaskStatusPending]"
  have "fst (run mem_env (taskRepository_MarkProcessing sample_id) ?w) = Inr True"
    by code_simp
  note r = run_fst [OF this]
  from MarkProcessing_compare_and_set [OF mem_gorm_laws r] r show ?thesis by auto
qed

text \<open>
  A status update is unconditional. When \<^verbatim>\<open>UpdateStatus\<close> succeeds the task
  existed, with whatever status, and its row now has the given status, an update time taken
  during the call and the given summary, or the old one when the given summary is empty; it
  answers \<^verbatim>\<open>ErrNotFound\<close> exactly when it reports no other error and the task is
  missing, and then nothing changes. Other rows never change.
\<close>

lemma UpdateStatus_unconditional:
  assumes "gorm_laws E V"
    and "run E (taskRepository_UpdateStatus i st sm) w = (r, w')"
  shows "case r of
           None \<Rightarrow>
             (\<exists>t ts. rows V w i = Some t \<and> clk V w - 1000 < ts \<and> ts \<le> clk V w' \<and>
                rows V w' = (rows V w)(i \<mapsto> t\<lparr>Status := st,
                  Summary := (if sm = '''' then Summary t else sm), UpdatedAt := ts\<rparr>))
         | Some e \<Rightarrow>
             (errors_Is e ErrNotFound \<longrightarrow> rows V w i = None \<and> rows V w' = rows V w) \<and>
             (\<forall>j. j \<noteq> i \<longrightarrow> rows V w' j = rows V w j)"
proof -
  let ?s = "Updates (IdIs i) (SetStatus st # (if sm \<noteq> '''' then [SetSummary sm] else []))"
  have ok: "table_ok (rows V w)" by (rule gorm_table_ok [OF assms(1)])
  obtain x where x: "on_exec E ?s w = (x, w')"
    using assms(2)
    by (auto simp: taskRepository_UpdateStatus_def Let_def split: prod.splits sum.splits if_splits)
  note rel = gorm_rel [OF assms(1) exec_answers [OF x]]
  have other: "rows V w' j = rows V w j" if "j \<noteq> i" for j
    using rel that by (cases x) (auto simp: law_simps ok split: option.splits)
  show ?thesis
  proof (cases x)
    case (Inl e)
    then have "r = Some (errorf ''update task status'' e)" "\<not> errors_Is e ErrNotFound"
      using assms(2) x gorm_foreign [OF assms(1) exec_answers [OF x]]
      by (auto simp: taskRepository_UpdateStatus_def Let_def)
    then show ?thesis using other by simp
  next
    case (Inr n)
    with assms(2) x have r: "r = (if n = 0 then Some ErrNotFound else None)"
      by (auto simp: taskRepository_UpdateStatus_def Let_def)
    from rel Inr obtain ts where ts: "n = affected ?s (rows V w)" "clk V w - 1000 < ts" "ts \<le> clk V w'"
        "rows V w' = stmt_effect ts ?s (rows V w)" by auto
    show ?thesis
    proof (cases "rows V w i")
      case None
      with ts r ok show ?thesis by (simp add: law_simps)
    next
      case (Some t)
      have "(fold apply_assign (SetStatus st # (if sm \<noteq> '''' then [SetSummary sm] else [])) t)
              \<lparr>UpdatedAt := ts\<rparr> =
            t\<lparr>Status := st, Summary := (if sm = '''' then Summary t else sm), UpdatedAt := ts\<rparr>"
        by simp
      with ts r ok Some show ?thesis
        by (simp add: law_simps del: fold_simps) (metis fun_upd_same)
    qed
  qed
qed

lemma UpdateStatus_unconditional_witness:
  "\<exists>w' t. run mem_env (taskRepository_UpdateStatus sample_id TaskStatusPending '''')
             (mem_with [sample_task TaskStatusCompleted]) = (None, w') \<and>
          mem_rows w' sample_id = Some t \<and> Status t = TaskStatusPending"
proof -
  let ?w = "mem_with [sample_task TaskStatusCompleted]"
  have "fst (run mem_env (taskRepository_UpdateStatus sample_id TaskStatusPending '''') ?w) = None"
    by code_simp
  note r = run_fst [OF this]
  from UpdateStatus_unconditional [OF mem_gorm_laws r] r show ?thesis by auto
qed

text \<open>
  C27: What a sweep's query returns. Without an error \<^verbatim>\<open>FindStale\<close> leaves the table
  unchanged and returns different rows of it, oldest first, at most the limit (100 when
  the limit is not positive), each of them pending and created before the first bound or
  processing and last updated before the second; a stale row it leaves out is not older
  than any row returned, and is left out only when the page is full.
\<close>

theorem FindStale_page:
  assumes "gorm_laws E V"
    and "run E (taskRepository_FindStale pb qb limit) w = (Inr ts, w')"
  shows "rows V w' = rows V w \<and> distinct ts \<and> sorted (map CreatedAt ts) \<and>
         int (length ts) \<le> (if limit \<le> 0 then 100 else limit) \<and>
         (\<forall>t \<in> set ts. rows V w (ID t) = Some t \<and> is_stale pb qb t) \<and>
         (\<forall>t i. rows V w i = Some t \<and> is_stale pb qb t \<and> t \<notin> set ts \<longrightarrow>
            (\<forall>u \<in> set ts. CreatedAt u \<le> CreatedAt t) \<and>
            int (length ts) = (if limit \<le> 0 then 100 else limit))"
proof -
  let ?n = "if limit \<le> 0 then 100 else nat limit"
  have ok: "table_ok (rows V w)" by (rule gorm_table_ok [OF assms(1)])
  obtain all where all: "distinct all" "set all = {t \<in> ran (rows V w). is_stale pb qb t}"
      "sorted (map CreatedAt all)" and ts: "ts = take ?n all" and same: "rows V w' = rows V w"
    using FindStale_refines [OF assms] by (auto simp: stale_page_def)
  have row: "rows V w (ID t) = Some t" if "t \<in> ran (rows V w)" for t
    using that ok by (auto simp: ran_def table_ok_def)
  have left: "t \<in> set (drop ?n all)" if "rows V w i = Some t" "is_stale pb qb t" "t \<notin> set ts" for t i
  proof -
    have "t \<in> set (take ?n all @ drop ?n all)" using that all(2) by (auto simp: ran_def)
    then show ?thesis using that(3) ts by (simp only: set_append) blast
  qed
  have srt: "\<forall>u \<in> set (take ?n all). \<forall>t \<in> set (drop ?n all). CreatedAt u \<le> CreatedAt t"
    using all(3) sorted_append [of "map CreatedAt (take ?n all)" "map CreatedAt (drop ?n all)"]
    by (simp add: map_append [symmetric] del: map_append)
  have full: "length ts = ?n" if "t \<in> set (drop ?n all)" for t
    using that ts by (cases "length all \<le> ?n") auto
  have out: "(\<forall>u \<in> set ts. CreatedAt u \<le> CreatedAt t) \<and> length ts = ?n"
    if "rows V w i = Some t" "is_stale pb qb t" "t \<notin> set ts" for t i
    using left [OF that] srt full ts by blast
  have n: "int ?n = (if limit \<le> 0 then 100 else limit)" by simp
  have page: "distinct ts" "sorted (map CreatedAt ts)" "length ts \<le> ?n"
    using all ts by (auto simp: take_map [symmetric] sorted_wrt_take)
  have sel: "rows V w (ID t) = Some t \<and> is_stale pb qb t" if "t \<in> set ts" for t
    using that ts all(2) row by (auto dest: in_set_takeD)
  show ?thesis
    unfolding n [symmetric] of_nat_le_iff of_nat_eq_iff
    using same page sel out by blast
qed

theorem FindStale_page_witness:
  "\<exists>w'. run mem_env (taskRepository_FindStale 100 100 0)
           (mem_with [sample_task TaskStatusProcessing]) = (Inr [sample_task TaskStatusProcessing], w') \<and>
        is_stale 100 100 (sample_task TaskStatusProcessing)"
proof -
  let ?w = "mem_with [sample_task TaskStatusProcessing]"
  have "fst (run mem_env (taskRepository_FindStale 100 100 0) ?w) = Inr [sample_task TaskStatusProcessing]"
    by code_simp
  note r = run_fst [OF this]
  from FindStale_page [OF mem_gorm_laws r] r show ?thesis by auto
qed

text \<open>
  Without an error \<^verbatim>\<open>List\<close> with a non-negative limit
  returns the number of live tasks and different live tasks, newest first, exactly as many
  as the limit allows after skipping the offset, and leaves the table unchanged.
\<close>

lemma repo_List_page:
  assumes "gorm_laws E V" and "0 \<le> limit"
    and "run E (taskRepository_List limit offset) w = (Inr (ts, cnt), w')"
  shows "rows V w' = rows V w \<and> cnt = int (card (dom (rows V w))) \<and>
         distinct ts \<and> sorted (rev (map CreatedAt ts)) \<and>
         (\<forall>t \<in> set ts. rows V w (ID t) = Some t) \<and>
         length ts = min (nat limit) (card (dom (rows V w)) - nat offset)"
proof -
  let ?q = "\<lparr>q_where = None, q_order = CreatedDesc, q_limit = limit, q_offset = offset\<rparr>"
  have ok: "table_ok (rows V w)" by (rule gorm_table_ok [OF assms(1)])
  obtain u where c: "on_count E w = (Inr cnt, u)" and f: "on_find E ?q u = (Inr ts, w')"
    using assms(3) by (auto simp: taskRepository_List_def split: prod.splits sum.splits)
  have c': "answers E w (ECount (Inr cnt)) u" and f': "answers E u (EFind ?q (Inr ts)) w'"
    using c f by simp_all
  have u: "rows V u = rows V w" "cnt = int (card (dom (rows V w)))"
    using gorm_rel [OF assms(1) c'] by auto
  obtain all where same: "rows V w' = rows V w"
    and all: "distinct all" "set all = ran (rows V w)" "sorted (rev (map CreatedAt all))"
    and ts: "ts = take (nat limit) (drop (nat offset) all)"
    using gorm_rel [OF assms(1) f'] assms(2) u(1)
    by (auto simp: query_result_def selected_def in_order_def page_def)
  have ids: "ID ` ran (rows V w) = dom (rows V w)"
    using ok by (force simp: ran_def table_ok_def dom_def image_def)
  have "inj_on ID (ran (rows V w))"
    using ok by (auto simp: inj_on_def ran_def table_ok_def)
  then have len: "length all = card (dom (rows V w))"
    using card_image [of ID "ran (rows V w)"] distinct_card [OF all(1)] all(2) ids by simp
  have "rows V w (ID t) = Some t" if "t \<in> set ts" for t
    using that ts all(2) ok by (auto dest!: in_set_takeD in_set_dropD simp: ran_def table_ok_def)
  moreover have "sorted (rev (map CreatedAt ts))"
  proof -
    have "sorted_wrt (\<lambda>x y. y \<le> x) (map CreatedAt all)"
      using all(3) by (simp add: sorted_wrt_rev)
    then have "sorted_wrt (\<lambda>x y. y \<le> x) (map CreatedAt ts)"
      unfolding ts by (simp add: take_map [symmetric] drop_map [symmetric] sorted_wrt_take sorted_wrt_drop)
    then show ?thesis by (simp add: sorted_wrt_rev)
  qed
  moreover have "distinct ts" "length ts = min (nat limit) (card (dom (rows V w)) - nat offset)"
    using ts all(1) len by simp_all
  ultimately show ?thesis using same u(2) by simp
qed

section \<open>Sequences of operations\<close>

text \<open>
  A sequence of repository operations, run through an implementation and on the abstract
  store. \<open>Failed\<close> is the reply to an operation that reported an error other than
  \<^verbatim>\<open>ErrNotFound\<close>.
\<close>

datatype store_op =
    ClaimOp uuid
  | StatusOp uuid TaskStatus string
  | DeleteOp uuid
  | GetOp uuid

datatype store_reply = Claimed bool | Done | Missing | Found task | Failed

fun done_or_missing :: "goerror option \<Rightarrow> store_reply" where
  "done_or_missing None = Done"
| "done_or_missing (Some e) = (if errors_Is e ErrNotFound then Missing else Failed)"

fun op_prog :: "task_repository \<Rightarrow> store_op \<Rightarrow> store_reply prog" where
  "op_prog R (ClaimOp i) =
     pbind (repo_MarkProcessing R i)
       (\<lambda>r. Return (case r of Inl _ \<Rightarrow> Failed | Inr b \<Rightarrow> Claimed b))"
| "op_prog R (StatusOp i st sm) =
     pbind (repo_UpdateStatus R i st sm) (\<lambda>r. Return (done_or_missing r))"
| "op_prog R (DeleteOp i) = pbind (repo_Delete R i) (\<lambda>r. Return (done_or_missing r))"
| "op_prog R (GetOp i) =
     pbind (repo_GetByID R i)
       (\<lambda>r. Return (case r of
          Inl e \<Rightarrow> if errors_Is e ErrNotFound then Missing else Failed
        | Inr t \<Rightarrow> Found (erase t)))"

primrec ops_prog :: "task_repository \<Rightarrow> store_op list \<Rightarrow> store_reply list prog" where
  "ops_prog R [] = Return []"
| "ops_prog R (x # xs) =
     pbind (op_prog R x) (\<lambda>r. pbind (ops_prog R xs) (\<lambda>rs. Return (r # rs)))"

fun op_abs :: "store_op \<Rightarrow> table \<Rightarrow> store_reply \<times> table" where
  "op_abs (ClaimOp i) m = (case claim_abs i m of (b, m') \<Rightarrow> (Claimed b, m'))"
| "op_abs (StatusOp i st sm) m =
     (case status_abs i st sm m of (r, m') \<Rightarrow> (done_or_missing r, m'))"
| "op_abs (DeleteOp i) m = (case delete_abs i m of (r, m') \<Rightarrow> (done_or_missing r, m'))"
| "op_abs (GetOp i) m = (case m i of None \<Rightarrow> Missing | Some t \<Rightarrow> Found t, m)"

primrec ops_abs :: "store_op list \<Rightarrow> table \<Rightarrow> store_reply list \<times> table" where
  "ops_abs [] m = ([], m)"
| "ops_abs (x # xs) m =
     (case op_abs x m of (r, m') \<Rightarrow> case ops_abs xs m' of (rs, m'') \<Rightarrow> (r # rs, m''))"

context task_store
begin

lemma op_refines:
  assumes L: "laws E V" and R: "run E (op_prog R x) w = (r, w')" and "r \<noteq> Failed"
  shows "op_abs x (store V w) = (r, store V w')"
proof (cases x)
  case (ClaimOp i)
  then obtain b where "run E (repo_MarkProcessing R i) w = (Inr b, w')" "r = Claimed b"
    using assms(2,3) by (auto split: prod.splits sum.splits)
  with claim [OF L this(1)] ClaimOp show ?thesis by simp
next
  case (StatusOp i st sm)
  then obtain e where e: "run E (repo_UpdateStatus R i st sm) w = (e, w')" "r = done_or_missing e"
    using assms(2) by (auto split: prod.splits)
  with set_status [OF L e(1)] StatusOp assms(3) show ?thesis
    by (cases e) (auto simp: status_abs_def split: if_splits)
next
  case (DeleteOp i)
  then obtain e where e: "run E (repo_Delete R i) w = (e, w')" "r = done_or_missing e"
    using assms(2) by (auto split: prod.splits)
  with delete [OF L e(1)] DeleteOp assms(3) show ?thesis
    by (cases e) (auto simp: delete_abs_def split: if_splits)
next
  case (GetOp i)
  then obtain g where g: "run E (repo_GetByID R i) w = (g, w')"
    using assms(2) by (auto split: prod.splits)
  with get [OF L g] get_store [OF L g] GetOp assms(2,3) show ?thesis
    by (cases g) (auto simp: store_of split: if_splits)
qed

lemma ops_refine:
  assumes L: "laws E V"
  shows "run E (ops_prog R xs) w = (rs, w') \<Longrightarrow> Failed \<notin> set rs \<Longrightarrow>
         ops_abs xs (store V w) = (rs, store V w')"
proof (induction xs arbitrary: w rs)
  case Nil
  then show ?case by simp
next
  case (Cons x xs)
  then obtain r u rs' where x: "run E (op_prog R x) w = (r, u)"
    and xs: "run E (ops_prog R xs) u = (rs', w')" and rs: "rs = r # rs'"
    by (auto split: prod.splits)
  from Cons.prems rs have "r \<noteq> Failed" "Failed \<notin> set rs'" by auto
  with op_refines [OF L x] Cons.IH [OF xs] rs show ?case by simp
qed

end

text \<open>
  C10: The repository refines the abstract store. Any sequence of claims, status updates,
  deletes and lookups through GORM in which no statement fails gives exactly the replies
  the abstract store gives, and leaves the abstract store's state (the live tasks up to
  their time stamps).
\<close>

theorem repository_refines_store:
  assumes "gorm_laws E V"
    and "run E (ops_prog NewTaskRepository ops) w = (replies, w')"
    and "Failed \<notin> set replies"
  shows "ops_abs ops (store V w) = (replies, store V w')"
  by (rule gorm_store.ops_refine [OF assms])

theorem repository_refines_store_witness:
  "\<exists>w'. run mem_env
          (ops_prog NewTaskRepository
             [ClaimOp sample_id, ClaimOp sample_id,
              StatusOp sample_id TaskStatusPending '''', ClaimOp sample_id,
              DeleteOp sample_id, GetOp sample_id])
          (mem_with [sample_task TaskStatusPending]) =
          ([Claimed True, Claimed False, Done, Claimed True, Done, Missing], w') \<and>
        store mem_view w' sample_id = None"
proof -
  let ?w = "mem_with [sample_task TaskStatusPending]"
  let ?ops = "[ClaimOp sample_id, ClaimOp sample_id,
              StatusOp sample_id TaskStatusPending '''', ClaimOp sample_id,
              DeleteOp sample_id, GetOp sample_id]"
  let ?rs = "[Claimed True, Claimed False, Done, Claimed True, Done, Missing]"
  have "fst (run mem_env (ops_prog NewTaskRepository ?ops) ?w) = ?rs" by code_simp
  then obtain w' where r: "run mem_env (ops_prog NewTaskRepository ?ops) ?w = (?rs, w')"
    by (rule run_obtain)
  have "ops_abs ?ops (store mem_view ?w) = (?rs, store mem_view w')"
    by (rule repository_refines_store [OF mem_gorm_laws r]) simp
  then have "store mem_view w' sample_id = None"
    by (auto simp: status_abs_def claim_abs_def delete_abs_def dest: fun_cong [where x = sample_id]
        split: option.splits if_splits)
  with r show ?thesis by blast
qed

end
