(* ===== verification/Event_Messages.thy ===== *)
theory Event_Messages
  imports Json_Codec
begin

text \<open>
  The messages of \<^verbatim>\<open>internal/event/event.go\<close>: the envelope, the payloads, and
  \<open>event_New\<close>, which builds the body of a message.
\<close>

definition RoutingTaskCreated :: string where "RoutingTaskCreated = ''task.created''"
definition RoutingTaskSummarized :: string where "RoutingTaskSummarized = ''task.summarized''"

text \<open>
  \<open>env_Payload\<close> is a \<^verbatim>\<open>json.RawMessage\<close>: the member's value, or \<open>None\<close> for the
  empty slice of an envelope without that member.
\<close>

record envelope =
  env_ID :: string
  env_Type :: string
  env_Timestamp :: int
  env_Payload :: "json option"

record task_created_payload =
  pl_TaskID :: uuid
  pl_Title :: string
  pl_Description :: string

record task_summarized_payload =
  ps_TaskID :: uuid
  ps_Summary :: string

section \<open>The envelope on the wire\<close>

definition marshal_envelope :: "lib \<Rightarrow> envelope \<Rightarrow> goerror + bytes" where
  "marshal_envelope L env =
     (case marshal_time L (env_Timestamp env) of
        Inl e \<Rightarrow> Inl e
      | Inr ts \<Rightarrow>
          Inr (Json (JObj
            [(''id'', JStr (env_ID env)), (''type'', JStr (env_Type env)), (''timestamp'', ts),
             (''payload'', case env_Payload env of None \<Rightarrow> JNull | Some raw \<Rightarrow> raw)])))"

definition envelope_tags :: "string list" where
  "envelope_tags = [''id'', ''type'', ''timestamp'', ''payload'']"

definition assign_envelope :: "lib \<Rightarrow> string \<Rightarrow> json \<Rightarrow> envelope \<Rightarrow> envelope option" where
  "assign_envelope L tag v env =
     (if tag = ''id'' then map_option (\<lambda>x. env\<lparr>env_ID := x\<rparr>) (into_string v (env_ID env))
      else if tag = ''type'' then map_option (\<lambda>x. env\<lparr>env_Type := x\<rparr>) (into_string v (env_Type env))
      else if tag = ''timestamp''
        then map_option (\<lambda>x. env\<lparr>env_Timestamp := x\<rparr>) (into_time L v (env_Timestamp env))
      else if tag = ''payload'' then Some (env\<lparr>env_Payload := Some v\<rparr>)
      else Some env)"

definition zero_envelope :: envelope where
  "zero_envelope =
     \<lparr>env_ID = '''', env_Type = '''', env_Timestamp = time_zero, env_Payload = None\<rparr>"

definition unmarshal_envelope :: "lib \<Rightarrow> bytes \<Rightarrow> goerror + envelope" where
  "unmarshal_envelope L body =
     unmarshal_struct envelope_tags (assign_envelope L) body zero_envelope"

definition envelope_wire_ok :: "envelope \<Rightarrow> bool" where
  "envelope_wire_ok env \<longleftrightarrow> time_in_range (env_Timestamp env) \<and> env_Payload env \<noteq> None"

interpretation envelope_codec:
  json_codec "marshal_envelope L" "unmarshal_envelope L" "\<lambda>env. lib_ok L \<and> envelope_wire_ok env"
  for L
  by unfold_locales
     (auto simp: marshal_envelope_def unmarshal_envelope_def unmarshal_struct_def
        marshal_time_def envelope_wire_ok_def envelope_tags_def assign_envelope_def
        zero_envelope_def lib_time)

section \<open>The payload of task.created\<close>

definition marshal_created :: "task_created_payload \<Rightarrow> goerror + json" where
  "marshal_created p =
     Inr (JObj [(''task_id'', JStr (uuid_String (pl_TaskID p))), (''title'', JStr (pl_Title p)),
                (''description'', JStr (pl_Description p))])"

definition created_tags :: "string list" where
  "created_tags = [''task_id'', ''title'', ''description'']"

definition assign_created ::
  "lib \<Rightarrow> string \<Rightarrow> json \<Rightarrow> task_created_payload \<Rightarrow> task_created_payload option" where
  "assign_created L tag v p =
     (if tag = ''task_id'' then map_option (\<lambda>x. p\<lparr>pl_TaskID := x\<rparr>) (into_uuid L v (pl_TaskID p))
      else if tag = ''title'' then map_option (\<lambda>x. p\<lparr>pl_Title := x\<rparr>) (into_string v (pl_Title p))
      else if tag = ''description''
        then map_option (\<lambda>x. p\<lparr>pl_Description := x\<rparr>) (into_string v (pl_Description p))
      else Some p)"

definition zero_created :: task_created_payload where
  "zero_created = \<lparr>pl_TaskID = uuid_Nil, pl_Title = '''', pl_Description = ''''\<rparr>"

definition unmarshal_created :: "lib \<Rightarrow> bytes \<Rightarrow> goerror + task_created_payload" where
  "unmarshal_created L body =
     unmarshal_struct created_tags (assign_created L) body zero_created"

definition created_bytes :: "task_created_payload \<Rightarrow> goerror + bytes" where
  "created_bytes p = (case marshal_created p of Inl e \<Rightarrow> Inl e | Inr j \<Rightarrow> Inr (Json j))"

interpretation created_codec:
  json_codec created_bytes "unmarshal_created L" "\<lambda>p. lib_ok L \<and> uuid_wf (pl_TaskID p)" for L
  by unfold_locales
     (auto simp: created_bytes_def marshal_created_def unmarshal_created_def
        unmarshal_struct_def created_tags_def assign_created_def zero_created_def lib_uuid)

text \<open>
  The raw payload of an envelope as the second decoding step reads it: an absent payload is
  the empty byte slice, which is not a JSON text.
\<close>

definition payload_bytes :: "envelope \<Rightarrow> bytes" where
  "payload_bytes env = (case env_Payload env of None \<Rightarrow> Raw '''' | Some raw \<Rightarrow> Json raw)"

section \<open>Building a message\<close>

text \<open>The payload comes already through \<^verbatim>\<open>json.Marshal\<close>.\<close>

definition event_New :: "lib \<Rightarrow> string \<Rightarrow> goerror + json \<Rightarrow> (goerror + bytes) prog" where
  "event_New L eventType payload =
     (case payload of
        Inl err \<Rightarrow> Return (Inl err)
      | Inr raw \<Rightarrow>
          NewUUID (\<lambda>u. TimeNow (\<lambda>now.
            Return (marshal_envelope L
              \<lparr>env_ID = uuid_String u, env_Type = eventType, env_Timestamp = now,
               env_Payload = Some raw\<rparr>))))"

lemma event_New_calls:
  "only (\<lambda>ev. \<not> db_event ev \<and> \<not> redis_event ev \<and> \<not> amqp_event ev) (event_New L ty p)"
  by (cases p) (simp_all add: event_New_def)

lemmas event_defs [go_defs] = event_New_def marshal_created_def

text \<open>
  Every message built can be read back: the envelope has the type asked for and a fresh ID,
  and its payload decodes to the payload that was sent.
\<close>

lemma event_New_decodes:
  assumes "lib_ok L" and "clock_laws E V" and "uuid_wf (pl_TaskID p)"
    and "run E (event_New L ty (marshal_created p)) w = (Inr body, w')"
  shows "\<exists>env. unmarshal_envelope L body = Inr env \<and> env_Type env = ty \<and>
               unmarshal_created L (payload_bytes env) = Inr p \<and>
               (\<exists>u. env_ID env = uuid_String u \<and> u \<noteq> uuid_Nil)"
proof -
  obtain j where j: "marshal_created p = Inr j" by (simp add: marshal_created_def)
  obtain u w1 now where u: "on_uuid E w = (u, w1)" and now: "on_now E w1 = (now, w')"
    and body: "marshal_envelope L
        \<lparr>env_ID = uuid_String u, env_Type = ty, env_Timestamp = now, env_Payload = Some j\<rparr> = Inr body"
    using assms(4) j by (auto simp: event_New_def split: prod.splits)
  let ?env = "\<lparr>env_ID = uuid_String u, env_Type = ty, env_Timestamp = now, env_Payload = Some j\<rparr>"
  have "answers E w (EUUID u) w1" using u by simp
  then have "clock_rel (clk V w) (EUUID u) (clk V w1)" by (rule clock_rel [OF assms(2)])
  then have fresh: "u \<noteq> uuid_Nil" by simp
  have "envelope_wire_ok ?env"
    using body by (auto simp: envelope_wire_ok_def marshal_envelope_def marshal_time_def split: if_splits)
  then have dec: "unmarshal_envelope L body = Inr ?env"
    using envelope_codec.unmarshal_marshal [OF _ body] assms(1) by simp
  have "unmarshal_created L (payload_bytes ?env) = Inr p"
    using created_codec.unmarshal_marshal [of L p "Json j"] assms(1,3) j
    by (simp add: created_bytes_def payload_bytes_def)
  with dec fresh show ?thesis by fastforce
qed

end
