(* ===== verification/Task_Service.thy ===== *)
theory Task_Service
  imports Task_Repository Event_Messages
begin

text \<open>
  \<^verbatim>\<open>internal/service/task_service.go\<close>: the use cases, over the repository and publisher
  interfaces. Logging is left out; the branches that only log remain as branches.
  The lemmas of the locale \<open>service_stack\<close> hold for every repository and publisher that
  meet their contracts.
\<close>

section \<open>The service and its interfaces\<close>

type_synonym publisher = "string \<Rightarrow> bytes \<Rightarrow> goerror option prog"

record task_service =
  s_repo :: task_repository
  s_pub :: publisher

definition NewTaskService :: "task_repository \<Rightarrow> publisher \<Rightarrow> task_service" where
  "NewTaskService repo pub = \<lparr>s_repo = repo, s_pub = pub\<rparr>"

record create_input =
  in_Title :: string
  in_Description :: string

definition taskCacheKeyPrefix :: string where "taskCacheKeyPrefix = ''task:''"

definition task_key :: "uuid \<Rightarrow> string" where
  "task_key i = taskCacheKeyPrefix @ uuid_String i"

section \<open>The use cases\<close>

text \<open>\<^verbatim>\<open>len\<close> counts bytes, as \<open>length\<close> does here.\<close>

definition CreateTaskInput_validate :: "create_input \<Rightarrow> goerror option" where
  "CreateTaskInput_validate inp =
     (if length (in_Title inp) = 0 then
        Some (Wrapped '''' ErrInvalidInput '': title is required'')
      else if length (in_Title inp) > 255 then
        Some (Wrapped '''' ErrInvalidInput '': title exceeds 255 characters'')
      else if length (in_Description inp) > 20000 then
        Some (Wrapped '''' ErrInvalidInput '': description exceeds 20000 characters'')
      else None)"

text \<open>The comparisons in binary, for evaluation.\<close>

lemma CreateTaskInput_validate_code [code]:
  "CreateTaskInput_validate inp =
     (if in_Title inp = [] then
        Some (Wrapped '''' ErrInvalidInput '': title is required'')
      else if int (length (in_Title inp)) > 255 then
        Some (Wrapped '''' ErrInvalidInput '': title exceeds 255 characters'')
      else if int (length (in_Description inp)) > 20000 then
        Some (Wrapped '''' ErrInvalidInput '': description exceeds 20000 characters'')
      else None)"
  by (simp add: CreateTaskInput_validate_def)

definition created_payload_of :: "task \<Rightarrow> task_created_payload" where
  "created_payload_of t =
     \<lparr>pl_TaskID = ID t, pl_Title = Title t, pl_Description = Description t\<rparr>"

definition TaskService_Create ::
  "lib \<Rightarrow> task_service \<Rightarrow> create_input \<Rightarrow> (goerror + task) prog" where
  "TaskService_Create L s inp =
     (case CreateTaskInput_validate inp of
        Some err \<Rightarrow> Return (Inl err)
      | None \<Rightarrow>
          let t = zero_task\<lparr>Title := in_Title inp, Description := in_Description inp,
                             Status := TaskStatusPending\<rparr>
          in pbind (repo_Create (s_repo s) t) (\<lambda>r. case r of
               Inl err \<Rightarrow> Return (Inl err)
             | Inr t \<Rightarrow>
                 pbind (event_New L RoutingTaskCreated (marshal_created (created_payload_of t)))
                   (\<lambda>b. case b of
                      Inl err \<Rightarrow> Return (Inr t)
                    | Inr body \<Rightarrow>
                        pbind (s_pub s RoutingTaskCreated body) (\<lambda>err. Return (Inr t)))))"

definition TaskService_cacheSet :: "lib \<Rightarrow> string \<Rightarrow> task \<Rightarrow> unit prog" where
  "TaskService_cacheSet L key t =
     (case marshal_task L t of
        Inl err \<Rightarrow> Return ()
      | Inr raw \<Rightarrow> RedisDo (Set key raw (5 * minute)) (\<lambda>err. Return ()))"

definition TaskService_Get :: "lib \<Rightarrow> task_service \<Rightarrow> uuid \<Rightarrow> (goerror + task) prog" where
  "TaskService_Get L s i =
     (let key = task_key i;
          from_repo =
            pbind (repo_GetByID (s_repo s) i) (\<lambda>r. case r of
              Inl err \<Rightarrow> Return (Inl err)
            | Inr t \<Rightarrow> pbind (TaskService_cacheSet L key t) (\<lambda>_. Return (Inr t)))
      in RedisGet key (\<lambda>r. case r of
           Inr raw \<Rightarrow>
             (case unmarshal_task L raw of
                Inr cached \<Rightarrow> Return (Inr cached)
              | Inl err \<Rightarrow> from_repo)
         | Inl err \<Rightarrow> from_repo))"

definition TaskService_List ::
  "task_service \<Rightarrow> int \<Rightarrow> int \<Rightarrow> (goerror + task list \<times> int) prog" where
  "TaskService_List s limit offset =
     (let limit = (if limit \<le> 0 \<or> limit > 100 then 20 else limit);
          offset = (if offset < 0 then 0 else offset)
      in repo_List (s_repo s) limit offset)"

definition TaskService_Delete :: "task_service \<Rightarrow> uuid \<Rightarrow> goerror option prog" where
  "TaskService_Delete s i =
     pbind (repo_Delete (s_repo s) i) (\<lambda>r. case r of
       Some err \<Rightarrow> Return (Some err)
     | None \<Rightarrow> RedisDo (Del (task_key i)) (\<lambda>err. Return None))"

definition TaskService_BeginProcessing :: "task_service \<Rightarrow> uuid \<Rightarrow> (goerror + bool) prog" where
  "TaskService_BeginProcessing s i =
     pbind (repo_MarkProcessing (s_repo s) i) (\<lambda>r. case r of
       Inl err \<Rightarrow> Return (Inl err)
     | Inr claimed \<Rightarrow>
         if claimed then RedisDo (Del (task_key i)) (\<lambda>err. Return (Inr claimed))
         else Return (Inr claimed))"

definition TaskService_FindStale ::
  "task_service \<Rightarrow> int \<Rightarrow> int \<Rightarrow> int \<Rightarrow> (goerror + task list) prog" where
  "TaskService_FindStale s pendingBefore processingBefore limit =
     repo_FindStale (s_repo s) pendingBefore processingBefore limit"

definition TaskService_MarkFailed :: "task_service \<Rightarrow> uuid \<Rightarrow> goerror option prog" where
  "TaskService_MarkFailed s i = repo_UpdateStatus (s_repo s) i TaskStatusFailed ''''"

definition TaskService_MarkPending :: "task_service \<Rightarrow> uuid \<Rightarrow> goerror option prog" where
  "TaskService_MarkPending s i =
     pbind (repo_UpdateStatus (s_repo s) i TaskStatusPending '''') (\<lambda>r. case r of
       Some err \<Rightarrow> Return (Some err)
     | None \<Rightarrow> RedisDo (Del (task_key i)) (\<lambda>err. Return None))"

definition TaskService_emitCreated :: "lib \<Rightarrow> task_service \<Rightarrow> task \<Rightarrow> goerror option prog" where
  "TaskService_emitCreated L s t =
     pbind (event_New L RoutingTaskCreated (marshal_created (created_payload_of t)))
       (\<lambda>b. case b of
          Inl err \<Rightarrow>
            Return (Some (errorf (''marshal task.created for '' @ uuid_String (ID t)) err))
        | Inr body \<Rightarrow> s_pub s RoutingTaskCreated body)"

definition TaskService_RepublishCreated ::
  "lib \<Rightarrow> task_service \<Rightarrow> task \<Rightarrow> goerror option prog" where
  "TaskService_RepublishCreated L s t =
     (if Status t = TaskStatusProcessing
      then pbind (TaskService_MarkPending s (ID t)) (\<lambda>r. case r of
             Some err \<Rightarrow>
               Return (Some (errorf (''reset stranded task '' @ uuid_String (ID t)) err))
           | None \<Rightarrow> TaskService_emitCreated L s t)
      else TaskService_emitCreated L s t)"

definition TaskService_ApplySummary ::
  "lib \<Rightarrow> task_service \<Rightarrow> uuid \<Rightarrow> string \<Rightarrow> goerror option prog" where
  "TaskService_ApplySummary L s i summary =
     pbind (repo_UpdateStatus (s_repo s) i TaskStatusCompleted summary) (\<lambda>r. case r of
       Some err \<Rightarrow> Return (Some err)
     | None \<Rightarrow>
         pbind (repo_GetByID (s_repo s) i) (\<lambda>r. case r of
           Inr t \<Rightarrow> pbind (TaskService_cacheSet L (task_key i) t) (\<lambda>_. Return None)
         | Inl err \<Rightarrow> Return None))"

lemmas service_defs [go_defs] =
  TaskService_Create_def TaskService_Get_def TaskService_List_def TaskService_Delete_def
  TaskService_BeginProcessing_def TaskService_FindStale_def TaskService_MarkFailed_def
  TaskService_MarkPending_def TaskService_emitCreated_def TaskService_RepublishCreated_def TaskService_ApplySummary_def
  TaskService_cacheSet_def

lemma NewTaskService_simps [simp]:
  "s_repo (NewTaskService R P) = R" "s_pub (NewTaskService R P) = P"
  by (simp_all add: NewTaskService_def)

lemma task_key_inj [simp]: "task_key i = task_key j \<longleftrightarrow> i = j"
  by (auto simp: task_key_def intro: uuid.expand)

section \<open>The publisher's contract\<close>

text \<open>
  A nil error means that the message was handed to the broker with its routing key and
  body, and confirmed; publishing touches neither the database nor Redis.
\<close>

definition confirmed :: "string \<Rightarrow> bytes \<Rightarrow> event list \<Rightarrow> bool" where
  "confirmed key body evs \<longleftrightarrow>
     (\<exists>x p. EAmqp (PublishConfirm x key p) None \<in> set evs \<and> p_Body p = body) \<and>
     EConfirm (Inr True) \<in> set evs"

locale publisher =
  fixes pub :: publisher
    and laws :: "'w env \<Rightarrow> 'w view \<Rightarrow> bool"
  assumes pub_confirmed:
      "laws E V \<Longrightarrow> run E (pub key body) w = (None, w') \<Longrightarrow>
       confirmed key body (log E (pub key body) w)"
    and pub_quiet: "only (\<lambda>ev. \<not> db_event ev \<and> \<not> redis_event ev) (pub key body)"

lemma confirmed_append [simp]:
  "confirmed key body xs \<Longrightarrow> confirmed key body (xs @ ys)"
  "confirmed key body ys \<Longrightarrow> confirmed key body (xs @ ys)"
  "confirmed key body xs \<Longrightarrow> confirmed key body (ev # xs)"
  by (auto simp: confirmed_def)

text \<open>A task.created message for the task was built and confirmed.\<close>

definition sent_created :: "lib \<Rightarrow> 'w env \<Rightarrow> task \<Rightarrow> event list \<Rightarrow> bool" where
  "sent_created L E t evs \<longleftrightarrow>
     (\<exists>x body y.
        run E (event_New L RoutingTaskCreated (marshal_created (created_payload_of t))) x =
          (Inr body, y) \<and>
        confirmed RoutingTaskCreated body evs)"

section \<open>The use cases over any repository and publisher\<close>

text \<open>The calls of the use cases that do not publish.\<close>

definition service_event :: "event \<Rightarrow> bool" where
  "service_event ev \<longleftrightarrow> store_event ev \<or> redis_event ev"

lemma service_event_intros [simp]:
  "store_event ev \<Longrightarrow> service_event ev" "service_event (ERedis c r)" "service_event (EGet k r')"
  by (simp_all add: service_event_def)

locale service_stack = task_store R laws + publisher P laws
  for R :: task_repository and laws :: "'w env \<Rightarrow> 'w view \<Rightarrow> bool" and P :: publisher +
  assumes laws_gorm: "laws E V \<Longrightarrow> gorm_laws E V"
begin

abbreviation svc :: task_service where "svc \<equiv> NewTaskService R P"

lemma cacheSet_quiet: "only (\<lambda>ev. \<not> db_event ev) (TaskService_cacheSet L key t)"
  by (simp add: TaskService_cacheSet_def split: sum.split)

lemma quiet_store:
  "laws E V \<Longrightarrow> only (\<lambda>ev. \<not> db_event ev) p \<Longrightarrow> run E p w = (a, w') \<Longrightarrow> store V w' = store V w"
  by (rule store_cong) (rule rows_frame [OF laws_gorm])

lemma redis_store:
  "laws E V \<Longrightarrow> on_redis E c w = (e, w') \<Longrightarrow> store V w' = store V w"
  by (rule quiet_store [where p = "RedisDo c Return"]) simp_all

lemma BeginProcessing_claims:
  assumes "laws E V" "run E (TaskService_BeginProcessing svc i) w = (Inr b, w')"
  shows "claim_abs i (store V w) = (b, store V w')"
proof -
  obtain u where u: "run E (repo_MarkProcessing R i) w = (Inr b, u)"
    and w': "w' = u \<or> (\<exists>e. on_redis E (Del (task_key i)) u = (e, w'))"
    using assms(2) by (auto simp: TaskService_BeginProcessing_def split: prod.splits sum.splits if_splits)
  with claim [OF assms(1) u] redis_store [OF assms(1)] show ?thesis by auto
qed

lemma BeginProcessing_error:
  assumes "laws E V" "run E (TaskService_BeginProcessing svc i) w = (Inl e, w')"
  shows "\<not> errors_Is e ErrNotFound"
proof -
  have "run E (repo_MarkProcessing R i) w = (Inl e, w')"
    using assms(2) by (auto simp: TaskService_BeginProcessing_def split: prod.splits sum.splits if_splits)
  from claim [OF assms(1) this] show ?thesis by simp
qed

text \<open>The calls the use cases make, and what they may leave behind when they fail.\<close>

lemma use_case_calls:
  "only service_event (TaskService_BeginProcessing svc i)"
  "only service_event (TaskService_MarkPending svc i)"
  "only service_event (TaskService_ApplySummary L svc i sm)"
  "only service_event (TaskService_Get L svc i)"
  "only service_event (TaskService_Delete svc i)"
  "only service_event (TaskService_FindStale svc pb qb n)"
  by (auto simp: TaskService_BeginProcessing_def TaskService_MarkPending_def
      TaskService_ApplySummary_def TaskService_Get_def TaskService_Delete_def
      TaskService_FindStale_def TaskService_cacheSet_def Let_def
      intro!: only_mono [OF calls(2)] only_mono [OF calls(3)] only_mono [OF calls(4)]
        only_mono [OF calls(5)] only_mono [OF calls(6)]
      split: sum.split option.split)

lemma BeginProcessing_any:
  assumes "laws E V" "run E (TaskService_BeginProcessing svc i) w = (r, w')"
  shows "store V w' = store V w \<or> store V w' = snd (claim_abs i (store V w))"
proof -
  obtain x u where u: "run E (repo_MarkProcessing R i) w = (x, u)" by fastforce
  have "store V u = store V w \<or> store V u = snd (claim_abs i (store V w))"
    using claim [OF assms(1) u] by (auto split: sum.splits simp: prod_eq_iff)
  moreover have "store V w' = store V u"
    using assms(2) u redis_store [OF assms(1)]
    by (auto simp: TaskService_BeginProcessing_def split: prod.splits sum.splits if_splits)
  ultimately show ?thesis by simp
qed

lemma status_any:
  assumes "laws E V" "run E (repo_UpdateStatus R i st sm) w = (r, w')"
  shows "store V w' = store V w \<or> store V w' = snd (status_abs i st sm (store V w))"
  using set_status [OF assms] by (auto split: option.splits if_splits simp: prod_eq_iff)

lemma MarkPending_any:
  assumes "laws E V" "run E (TaskService_MarkPending svc i) w = (r, w')"
  shows "store V w' = store V w \<or>
         store V w' = snd (status_abs i TaskStatusPending '''' (store V w))"
proof -
  obtain x u where u: "run E (repo_UpdateStatus R i TaskStatusPending '''') w = (x, u)" by fastforce
  have "store V w' = store V u"
    using assms(2) u redis_store [OF assms(1)]
    by (auto simp: TaskService_MarkPending_def split: prod.splits option.splits)
  with status_any [OF assms(1) u] show ?thesis by simp
qed

lemma ApplySummary_any:
  assumes "laws E V" "run E (TaskService_ApplySummary L svc i sm) w = (Some e, w')"
  shows "if errors_Is e ErrNotFound then store V w i = None \<and> store V w' = store V w
         else store V w' = store V w \<or>
              store V w' = snd (status_abs i TaskStatusCompleted sm (store V w))"
proof -
  have "run E (repo_UpdateStatus R i TaskStatusCompleted sm) w = (Some e, w')"
    using assms(2)
    by (auto simp: TaskService_ApplySummary_def split: prod.splits option.splits sum.splits)
  from set_status [OF assms(1) this] show ?thesis by simp
qed

lemma MarkPending_store:
  assumes "laws E V" "run E (TaskService_MarkPending svc i) w = (None, w')"
  shows "\<exists>t. store V w i = Some t \<and> store V w' = (store V w)(i \<mapsto> t\<lparr>Status := TaskStatusPending\<rparr>)"
proof -
  obtain u e where u: "run E (repo_UpdateStatus R i TaskStatusPending '''') w = (None, u)"
    and w': "on_redis E (Del (task_key i)) u = (e, w')"
    using assms(2) by (auto simp: TaskService_MarkPending_def split: prod.splits option.splits)
  from status_set [OF assms(1) u] redis_store [OF assms(1) w'] show ?thesis by auto
qed

lemma ApplySummary_store:
  assumes "laws E V" "run E (TaskService_ApplySummary L svc i sm) w = (None, w')"
  shows "\<exists>t. store V w i = Some t \<and>
             store V w' = (store V w)(i \<mapsto> t\<lparr>Status := TaskStatusCompleted,
               Summary := (if sm = '''' then Summary t else sm)\<rparr>)"
proof -
  obtain u g v where u: "run E (repo_UpdateStatus R i TaskStatusCompleted sm) w = (None, u)"
    and g: "run E (repo_GetByID R i) u = (g, v)"
    and w': "w' = v \<or> (\<exists>t x. run E (TaskService_cacheSet L (task_key i) t) v = (x, w'))"
    using assms(2)
    by (auto simp: TaskService_ApplySummary_def split: prod.splits option.splits sum.splits)
  have "store V w' = store V v" using w' quiet_store [OF assms(1) cacheSet_quiet] by blast
  also have "\<dots> = store V u" by (rule get_store [OF assms(1) g])
  finally show ?thesis using status_set [OF assms(1) u] by auto
qed

lemma Create_store:
  assumes "laws E V" "run E (TaskService_Create L svc inp) w = (Inr t, w')"
  shows "CreateTaskInput_validate inp = None \<and> store V w (ID t) = None \<and>
         store V w' = (store V w)(ID t \<mapsto> erase t) \<and>
         Title t = in_Title inp \<and> Description t = in_Description inp \<and>
         Status t = TaskStatusPending \<and> Summary t = '''' \<and> DeletedAt t = None"
proof -
  let ?t = "zero_task\<lparr>Title := in_Title inp, Description := in_Description inp,
                      Status := TaskStatusPending\<rparr>"
  let ?ev = "event_New L RoutingTaskCreated (marshal_created (created_payload_of t))"
  have v: "CreateTaskInput_validate inp = None"
    using assms(2) by (auto simp: TaskService_Create_def split: option.splits)
  obtain u b x where u: "run E (repo_Create R ?t) w = (Inr t, u)"
    and b: "run E ?ev u = (b, x)"
    and w': "w' = x \<or> (\<exists>body e. run E (P RoutingTaskCreated body) x = (e, w'))"
    using assms(2) v by (auto simp: TaskService_Create_def split: prod.splits sum.splits)
  have "store V w' = store V x"
    using w' quiet_store [OF assms(1) only_mono [OF pub_quiet]] by blast
  also have "\<dots> = store V u"
    by (rule quiet_store [OF assms(1) only_mono [OF event_New_calls] b]) simp
  finally show ?thesis
    using create [OF assms(1) _ u] v by (simp add: created_from_def zero_task_def)
qed

lemma emitCreated_quiet: "only (\<lambda>ev. \<not> db_event ev) (TaskService_emitCreated L svc t)"
  unfolding TaskService_emitCreated_def
  by (intro only_pbind only_mono [OF event_New_calls])
     (auto split: sum.split intro: only_mono [OF pub_quiet])

lemma emitCreated_sent:
  assumes "laws E V" "run E (TaskService_emitCreated L svc t) w = (None, w')"
  shows "sent_created L E t (log E (TaskService_emitCreated L svc t) w)"
proof -
  let ?ev = "event_New L RoutingTaskCreated (marshal_created (created_payload_of t))"
  obtain b y where b: "run E ?ev w = (b, y)" by fastforce
  with assms(2) obtain body where body: "b = Inr body"
    by (cases b) (simp_all add: TaskService_emitCreated_def)
  with assms(2) b have p: "run E (P RoutingTaskCreated body) y = (None, w')"
    by (simp add: TaskService_emitCreated_def)
  have "log E (TaskService_emitCreated L svc t) w =
      log E ?ev w @ log E (P RoutingTaskCreated body) y"
    using b body by (simp add: TaskService_emitCreated_def)
  then have "confirmed RoutingTaskCreated body (log E (TaskService_emitCreated L svc t) w)"
    using pub_confirmed [OF assms(1) p] by simp
  with b body show ?thesis unfolding sent_created_def by blast
qed

lemma Republish_any:
  assumes "laws E V" "run E (TaskService_RepublishCreated L svc t) w = (r, w')"
  shows "store V w' = store V w \<or>
         Status t = TaskStatusProcessing \<and>
         store V w' = snd (status_abs (ID t) TaskStatusPending '''' (store V w))"
proof (cases "Status t = TaskStatusProcessing")
  case True
  obtain m x where x: "run E (TaskService_MarkPending svc (ID t)) w = (m, x)" by fastforce
  have "store V w' = store V x"
  proof (cases m)
    case None
    with assms(2) x True have g: "run E (TaskService_emitCreated L svc t) x = (r, w')"
      by (simp add: TaskService_RepublishCreated_def)
    show ?thesis by (rule quiet_store [OF assms(1) emitCreated_quiet g])
  next
    case (Some e)
    with assms(2) x True show ?thesis by (simp add: TaskService_RepublishCreated_def)
  qed
  with MarkPending_any [OF assms(1) x] True show ?thesis by simp
next
  case False
  then have g: "run E (TaskService_emitCreated L svc t) w = (r, w')"
    using assms(2) by (simp add: TaskService_RepublishCreated_def)
  have "store V w' = store V w" by (rule quiet_store [OF assms(1) emitCreated_quiet g])
  then show ?thesis by simp
qed

lemma sent_created_append [simp]:
  "sent_created L E t ys \<Longrightarrow> sent_created L E t (xs @ ys)"
  unfolding sent_created_def by (elim exE conjE) (intro exI conjI, assumption, simp)

lemma Republish_resets:
  assumes "laws E V" "run E (TaskService_RepublishCreated L svc t) w = (None, w')"
  shows "(if Status t = TaskStatusProcessing
          then \<exists>t0. store V w (ID t) = Some t0 \<and>
                    store V w' = (store V w)(ID t \<mapsto> t0\<lparr>Status := TaskStatusPending\<rparr>)
          else store V w' = store V w) \<and>
         sent_created L E t (log E (TaskService_RepublishCreated L svc t) w)"
proof (cases "Status t = TaskStatusProcessing")
  case True
  obtain r x where rx: "run E (TaskService_MarkPending svc (ID t)) w = (r, x)" by fastforce
  with assms(2) True have "r = None"
    by (cases r) (simp_all add: TaskService_RepublishCreated_def)
  with rx have x: "run E (TaskService_MarkPending svc (ID t)) w = (None, x)" by simp
  with assms(2) True have g: "run E (TaskService_emitCreated L svc t) x = (None, w')"
    by (simp add: TaskService_RepublishCreated_def)
  have lg: "log E (TaskService_RepublishCreated L svc t) w =
      log E (TaskService_MarkPending svc (ID t)) w @ log E (TaskService_emitCreated L svc t) x"
    using x True by (simp add: TaskService_RepublishCreated_def)
  have "store V w' = store V x" by (rule quiet_store [OF assms(1) emitCreated_quiet g])
  then show ?thesis
    using MarkPending_store [OF assms(1) x] emitCreated_sent [OF assms(1) g] True lg by simp
next
  case False
  then have g: "run E (TaskService_emitCreated L svc t) w = (None, w')"
    and lg: "log E (TaskService_RepublishCreated L svc t) w = log E (TaskService_emitCreated L svc t) w"
    using assms(2) by (simp_all add: TaskService_RepublishCreated_def)
  have "store V w' = store V w" by (rule quiet_store [OF assms(1) emitCreated_quiet g])
  then show ?thesis using emitCreated_sent [OF assms(1) g] False lg by simp
qed

end

end
