(* ===== verification/Http_Transport.thy ===== *)
theory Http_Transport
  imports Task_Service Go_Strconv
begin

text \<open>
  \<^verbatim>\<open>internal/transport/http\<close>: the middleware, the handlers and the routes. The Fiber
  framework is a parameter, the record \<open>fiber\<close>: which registered route a request matches,
  and how path parameters, query parameters and the body are read. A handler is a program
  on the request's context; a middleware gets the rest of the chain, that is, what
  \<^verbatim>\<open>c.Next()\<close> runs, as an argument. A handler may end with a panic, so that the recovering
  middleware can be stated.
\<close>

section \<open>Requests and contexts\<close>

text \<open>\<open>rq_header\<close> is empty for an absent header.\<close>

record request =
  rq_method :: string
  rq_path :: string
  rq_header :: "string \<Rightarrow> string"
  rq_ip :: string
  rq_body :: bytes

text \<open>\<open>cx_request_id\<close> is the local \<^verbatim>\<open>request_id\<close>; the other fields are the response.\<close>

record ctx =
  cx_req :: request
  cx_request_id :: "string option"
  cx_status :: int
  cx_headers :: "string \<rightharpoonup> string"
  cx_body :: "bytes option"

definition fresh_ctx :: "request \<Rightarrow> ctx" where
  "fresh_ctx rq =
     \<lparr>cx_req = rq, cx_request_id = None, cx_status = 200, cx_headers = Map.empty, cx_body = None\<rparr>"

datatype completion = Returned "goerror option" | Panicked

type_synonym http_handler = "ctx \<Rightarrow> (completion \<times> ctx) prog"
type_synonym middleware = "http_handler \<Rightarrow> http_handler"

datatype route_key = UseAt string | At string string

record fiber =
  fb_Matches :: "route_key \<Rightarrow> request \<Rightarrow> bool"
  fb_Params :: "request \<Rightarrow> string \<Rightarrow> string"
  fb_QueryInt :: "request \<Rightarrow> string \<Rightarrow> int \<Rightarrow> int"
  fb_BodyParser :: "request \<Rightarrow> goerror + create_input"

definition set_header :: "string \<Rightarrow> string \<Rightarrow> ctx \<Rightarrow> ctx" where
  "set_header name v c = c\<lparr>cx_headers := (cx_headers c)(name \<mapsto> v)\<rparr>"

text \<open>\<^verbatim>\<open>c.Status(code).JSON(v)\<close>: an encoding error is returned, with the status already set.\<close>

definition status_JSON :: "int \<Rightarrow> goerror + bytes \<Rightarrow> ctx \<Rightarrow> completion \<times> ctx" where
  "status_JSON code v c =
     (case v of
        Inl err \<Rightarrow> (Returned (Some err), c\<lparr>cx_status := code\<rparr>)
      | Inr b \<Rightarrow>
          (Returned None,
           set_header ''Content-Type'' ''application/json'' (c\<lparr>cx_status := code, cx_body := Some b\<rparr>)))"

text \<open>\<^verbatim>\<open>c.JSON(v)\<close> leaves the status as it is.\<close>

definition ctx_JSON :: "goerror + bytes \<Rightarrow> ctx \<Rightarrow> completion \<times> ctx" where
  "ctx_JSON v c = status_JSON (cx_status c) v c"

section \<open>Middleware\<close>

definition RequestIDHeader :: string where "RequestIDHeader = ''X-Request-ID''"

definition RequestID :: middleware where
  "RequestID next c =
     (let go = (\<lambda>i. next (set_header RequestIDHeader i (c\<lparr>cx_request_id := Some i\<rparr>)))
      in if rq_header (cx_req c) RequestIDHeader = ''''
         then NewUUID (\<lambda>u. go (uuid_String u))
         else go (rq_header (cx_req c) RequestIDHeader))"

definition traceID :: "ctx \<Rightarrow> string" where
  "traceID c = (case cx_request_id c of Some i \<Rightarrow> i | None \<Rightarrow> '''')"

record error_body =
  eb_Error :: string
  eb_Code :: string
  eb_Details :: string
  eb_TraceID :: string

definition marshal_error_body :: "error_body \<Rightarrow> goerror + bytes" where
  "marshal_error_body b =
     Inr (Json (JObj
       ([(''error'', JStr (eb_Error b)), (''code'', JStr (eb_Code b))] @
        (if eb_Details b = '''' then [] else [(''details'', JStr (eb_Details b))]) @
        (if eb_TraceID b = '''' then [] else [(''trace_id'', JStr (eb_TraceID b))]))))"

text \<open>The status and the body for an error.\<close>

definition error_reply :: "bool \<Rightarrow> string \<Rightarrow> goerror \<Rightarrow> int \<times> error_body" where
  "error_reply includeDetail trace err =
     (let body = \<lparr>eb_Error = ''internal server error'', eb_Code = ''internal_error'',
                  eb_Details = '''', eb_TraceID = trace\<rparr>
      in case as_fiber err of
           Some (fcode, fmsg) \<Rightarrow> (fcode, body\<lparr>eb_Error := fmsg\<rparr>)
         | None \<Rightarrow>
             if errors_Is err ErrNotFound then
               (404, body\<lparr>eb_Error := ''resource not found'', eb_Code := ''not_found''\<rparr>)
             else if errors_Is err ErrInvalidInput then
               (400, body\<lparr>eb_Error := error_text err, eb_Code := ''invalid_input''\<rparr>)
             else (500, if includeDetail then body\<lparr>eb_Details := error_text err\<rparr> else body))"

definition ErrorHandler :: "bool \<Rightarrow> ctx \<Rightarrow> goerror \<Rightarrow> completion \<times> ctx" where
  "ErrorHandler includeDetail c err =
     (case error_reply includeDetail (traceID c) err of
        (code, body) \<Rightarrow>
          status_JSON code (marshal_error_body body)
            (set_header ''Content-Type'' ''application/json'' c))"

definition NotFound :: http_handler where
  "NotFound c =
     Return (status_JSON 404 (marshal_error_body
       \<lparr>eb_Error = ''route not found'', eb_Code = ''route_not_found'', eb_Details = '''',
        eb_TraceID = traceID c\<rparr>) c)"

text \<open>\<^verbatim>\<open>int(window.Seconds())\<close>.\<close>

definition whole_seconds :: "int \<Rightarrow> int" where
  "whole_seconds d = (if d < 0 then - ((- d) div second) else d div second)"

definition RateLimiter ::
  "(string \<Rightarrow> int \<Rightarrow> (goerror + int) prog) \<Rightarrow> int \<Rightarrow> int \<Rightarrow> middleware" where
  "RateLimiter increment limit window next c =
     pbind (increment (''ratelimit:'' @ rq_ip (cx_req c)) window) (\<lambda>r. case r of
       Inl err \<Rightarrow> next c
     | Inr count \<Rightarrow>
         let remaining = (if limit - count < 0 then 0 else limit - count);
             c = set_header ''X-RateLimit-Remaining'' (itoa remaining)
                   (set_header ''X-RateLimit-Limit'' (itoa limit) c)
         in if count > limit then
              Return (status_JSON 429 (marshal_error_body
                \<lparr>eb_Error = ''rate limit exceeded'', eb_Code = ''rate_limited'', eb_Details = '''',
                 eb_TraceID = traceID c\<rparr>)
                (set_header ''Retry-After'' (itoa (whole_seconds window)) c))
            else next c)"

definition Recoverer :: middleware where
  "Recoverer next c =
     pbind (next c) (\<lambda>(res, c'). case res of
       Panicked \<Rightarrow>
         Return (Returned None,
           snd (status_JSON 500 (marshal_error_body
             \<lparr>eb_Error = ''internal server error'', eb_Code = ''panic'', eb_Details = '''',
              eb_TraceID = traceID c'\<rparr>)
             (set_header ''Content-Type'' ''application/json'' c')))
     | Returned e \<Rightarrow> Return (Returned e, c'))"

section \<open>The task handlers\<close>

definition TaskHandler_Create :: "lib \<Rightarrow> fiber \<Rightarrow> task_service \<Rightarrow> http_handler" where
  "TaskHandler_Create L F svc c =
     (case fb_BodyParser F (cx_req c) of
        Inl err \<Rightarrow> Return (Returned (Some (FiberError 400 ''malformed JSON body'')), c)
      | Inr inp \<Rightarrow>
          pbind (TaskService_Create L svc inp) (\<lambda>r. case r of
            Inl err \<Rightarrow> Return (Returned (Some err), c)
          | Inr t \<Rightarrow> Return (status_JSON 201 (marshal_task L t) c)))"

definition TaskHandler_Get :: "lib \<Rightarrow> fiber \<Rightarrow> task_service \<Rightarrow> http_handler" where
  "TaskHandler_Get L F svc c =
     (case uuid_Parse L (fb_Params F (cx_req c) ''id'') of
        None \<Rightarrow> Return (Returned (Some (FiberError 400 ''invalid task id'')), c)
      | Some i \<Rightarrow>
          pbind (TaskService_Get L svc i) (\<lambda>r. case r of
            Inl err \<Rightarrow> Return (Returned (Some err), c)
          | Inr t \<Rightarrow> Return (ctx_JSON (marshal_task L t) c)))"

text \<open>Encoding a list fails with the first element that cannot be encoded.\<close>

fun json_of :: "bytes \<Rightarrow> json" where
  "json_of (Json j) = j"
| "json_of (Raw s) = JStr s"

fun marshal_list :: "('a \<Rightarrow> goerror + bytes) \<Rightarrow> 'a list \<Rightarrow> goerror + json list" where
  "marshal_list m [] = Inr []"
| "marshal_list m (x # xs) =
     (case m x of
        Inl e \<Rightarrow> Inl e
      | Inr b \<Rightarrow> (case marshal_list m xs of Inl e \<Rightarrow> Inl e | Inr js \<Rightarrow> Inr (json_of b # js)))"

definition marshal_page ::
  "lib \<Rightarrow> task list \<Rightarrow> int \<Rightarrow> int \<Rightarrow> int \<Rightarrow> goerror + bytes" where
  "marshal_page L tasks cnt limit offset =
     (case marshal_list (marshal_task L) tasks of
        Inl e \<Rightarrow> Inl e
      | Inr js \<Rightarrow>
          Inr (Json (JObj [(''data'', JArr js), (''limit'', JNum limit), (''offset'', JNum offset),
                           (''total'', JNum cnt)])))"

definition TaskHandler_List :: "lib \<Rightarrow> fiber \<Rightarrow> task_service \<Rightarrow> http_handler" where
  "TaskHandler_List L F svc c =
     (let limit = fb_QueryInt F (cx_req c) ''limit'' 20;
          offset = fb_QueryInt F (cx_req c) ''offset'' 0
      in pbind (TaskService_List svc limit offset) (\<lambda>r. case r of
           Inl err \<Rightarrow> Return (Returned (Some err), c)
         | Inr (tasks, cnt) \<Rightarrow> Return (ctx_JSON (marshal_page L tasks cnt limit offset) c)))"

text \<open>\<^verbatim>\<open>SendStatus\<close> puts the status message into an empty body.\<close>

definition SendNoContent :: "ctx \<Rightarrow> completion \<times> ctx" where
  "SendNoContent c =
     (Returned None,
      c\<lparr>cx_status := 204,
        cx_body := (case cx_body c of None \<Rightarrow> Some (Raw ''No Content'') | Some b \<Rightarrow> Some b)\<rparr>)"

definition TaskHandler_Delete :: "lib \<Rightarrow> fiber \<Rightarrow> task_service \<Rightarrow> http_handler" where
  "TaskHandler_Delete L F svc c =
     (case uuid_Parse L (fb_Params F (cx_req c) ''id'') of
        None \<Rightarrow> Return (Returned (Some (FiberError 400 ''invalid task id'')), c)
      | Some i \<Rightarrow>
          pbind (TaskService_Delete svc i) (\<lambda>r. case r of
            Some err \<Rightarrow> Return (Returned (Some err), c)
          | None \<Rightarrow> Return (SendNoContent c)))"

section \<open>Health\<close>

definition Health_Live :: http_handler where
  "Health_Live c = Return (ctx_JSON (Inr (Json (JObj [(''status'', JStr ''ok'')]))) c)"

definition check_text :: "bool \<Rightarrow> json" where
  "check_text ok = JStr (if ok then ''ok'' else ''unavailable'')"

definition Health_Ready :: http_handler where
  "Health_Ready c =
     (let check_redis = (\<lambda>pg_ok.
            RedisDo PingRedis (\<lambda>r.
              let redis_ok = (r = None); healthy = (pg_ok \<and> redis_ok)
              in Return (status_JSON (if healthy then 200 else 503)
                   (Inr (Json (JObj
                     [(''checks'', JObj [(''postgres'', check_text pg_ok), (''redis'', check_text redis_ok)]),
                      (''status'', JStr (if healthy then ''ok'' else ''degraded''))]))) c)))
      in Boot GormDB (\<lambda>r. case r of
           Some err \<Rightarrow> check_redis False
         | None \<Rightarrow> Boot PingDB (\<lambda>r. check_redis (r = None))))"

section \<open>The routes\<close>

record router_deps =
  rd_TaskService :: task_service
  rd_RateLimit :: "middleware option"

text \<open>A handler that does not call \<^verbatim>\<open>c.Next()\<close>.\<close>

abbreviation endpoint :: "http_handler \<Rightarrow> middleware" where
  "endpoint h \<equiv> \<lambda>next. h"

definition NewRouter :: "lib \<Rightarrow> fiber \<Rightarrow> router_deps \<Rightarrow> (route_key \<times> middleware) list" where
  "NewRouter L F deps =
     (let svc = rd_TaskService deps; api = ''/api/v1''; tasks = api @ ''/tasks''
      in [(UseAt ''/'', RequestID), (UseAt ''/'', Recoverer),
          (At ''GET'' ''/health/live'', endpoint Health_Live),
          (At ''GET'' ''/health/ready'', endpoint Health_Ready)] @
         (case rd_RateLimit deps of None \<Rightarrow> [] | Some rl \<Rightarrow> [(UseAt api, rl)]) @
         [(At ''POST'' (tasks @ ''/''), endpoint (TaskHandler_Create L F svc)),
          (At ''GET'' (tasks @ ''/''), endpoint (TaskHandler_List L F svc)),
          (At ''GET'' (tasks @ ''/:id''), endpoint (TaskHandler_Get L F svc)),
          (At ''DELETE'' (tasks @ ''/:id''), endpoint (TaskHandler_Delete L F svc)),
          (UseAt ''/'', endpoint NotFound)])"

text \<open>
  Fiber runs the matching routes in the order of their registration; \<^verbatim>\<open>c.Next()\<close> continues
  with the next match, and fails with status 404 when there is none. An error that the chain
  returns goes to the error handler; a panic that leaves the chain ends the process
  (\<open>None\<close>).
\<close>

fun run_routes :: "fiber \<Rightarrow> (route_key \<times> middleware) list \<Rightarrow> http_handler" where
  "run_routes F [] c =
     Return (Returned (Some (FiberError 404
       (''Cannot '' @ rq_method (cx_req c) @ '' '' @ rq_path (cx_req c)))), c)"
| "run_routes F ((key, mw) # rs) c =
     (if fb_Matches F key (cx_req c) then mw (run_routes F rs) c else run_routes F rs c)"

definition serve ::
  "fiber \<Rightarrow> bool \<Rightarrow> (route_key \<times> middleware) list \<Rightarrow> request \<Rightarrow> ctx option prog" where
  "serve F includeDetail routes rq =
     pbind (run_routes F routes (fresh_ctx rq)) (\<lambda>(res, c).
       Return (case res of
                 Returned None \<Rightarrow> Some c
               | Returned (Some err) \<Rightarrow> Some (snd (ErrorHandler includeDetail c err))
               | Panicked \<Rightarrow> None))"

end
