(* ===== verification/Broker.thy ===== *)
theory Broker
  imports Task_Service Go_Strconv
begin

text \<open>
  \<^verbatim>\<open>internal/broker/broker.go\<close>: dialing with backoff, the topology, publishing with
  confirms, and closing. Operations that change the broker return it updated. Publishing
  runs under the broker's mutex from its first call to its last, so two publications never
  overlap and the broker a call sees is the one at that moment.
\<close>

section \<open>State\<close>

definition QueueTaskEvents :: string where "QueueTaskEvents = ''task.events''"
definition QueueTaskDLQ :: string where "QueueTaskDLQ = ''task.events.dlq''"
definition RoutingTaskAny :: string where "RoutingTaskAny = ''task.*''"
definition headerRetryCount :: string where "headerRetryCount = ''x-retry-count''"

type_synonym handler = "bytes \<Rightarrow> goerror option prog"

record consumer =
  cn_queue :: string
  cn_handler :: handler
  cn_prefetch :: int
  cn_stopped :: bool

record broker =
  b_exchange :: string
  b_prefetch :: int
  b_pubCh :: bool
  b_consumers :: "consumer list"
  b_closed :: bool

record broker_options =
  opt_URL :: string
  opt_Exchange :: string
  opt_Prefetch :: int

section \<open>Dialing\<close>

text \<open>
  The backoff doubles up to eight seconds. \<open>dial_loop n\<close> makes one attempt and, after
  failures, at most \<open>n\<close> more; the error of a cancelled context is one of two messages,
  of which the first stands here.
\<close>

definition next_backoff :: "int \<Rightarrow> int" where
  "next_backoff b = (if b < 8 * second then b * 2 else b)"

definition ctx_canceled :: goerror where "ctx_canceled = Plain ''context canceled''"

fun dial_loop :: "nat \<Rightarrow> string \<Rightarrow> int \<Rightarrow> goerror option prog" where
  "dial_loop n url backoff =
     Boot (AmqpDial url) (\<lambda>r. case r of
       None \<Rightarrow> Return None
     | Some err \<Rightarrow>
         SelectDone backoff (\<lambda>cancelled.
           if cancelled then Return (Some ctx_canceled)
           else case n of
                  0 \<Rightarrow> Return (Some (errorf ''broker: dial after 10 attempts'' err))
                | Suc m \<Rightarrow> dial_loop m url (next_backoff backoff)))"

declare dial_loop.simps [simp del]

definition dial :: "string \<Rightarrow> goerror option prog" where
  "dial url = dial_loop 9 url (500 * millisecond)"

section \<open>Topology\<close>

definition amqp_do :: "amqp_cmd \<Rightarrow> string \<Rightarrow> goerror option prog \<Rightarrow> goerror option prog" where
  "amqp_do c ctx rest =
     Amqp c (\<lambda>r. case r of Some err \<Rightarrow> Return (Some (errorf ctx err)) | None \<Rightarrow> rest)"

definition declareTopology :: "string \<Rightarrow> goerror option prog" where
  "declareTopology exchange =
     amqp_do (ExchangeDeclare exchange ''topic'' True False False False)
             (''broker: declare exchange '' @ exchange)
    (amqp_do (ExchangeDeclare (exchange @ ''.dlx'') ''fanout'' True False False False)
             ''broker: declare dlx''
    (amqp_do (QueueDeclare QueueTaskDLQ True False False False [])
             ''broker: declare dlq''
    (amqp_do (QueueBind QueueTaskDLQ '''' (exchange @ ''.dlx''))
             ''broker: bind dlq''
    (amqp_do (QueueDeclare QueueTaskEvents True False False False
                [(''x-dead-letter-exchange'', exchange @ ''.dlx'')])
             (''broker: declare queue '' @ QueueTaskEvents)
    (amqp_do (QueueBind QueueTaskEvents RoutingTaskAny exchange)
             (''broker: bind queue '' @ QueueTaskEvents)
    (Return None))))))"

text \<open>The channel is closed by a deferred call, whatever the declarations return.\<close>

definition declareTopologyOnAll :: "broker \<Rightarrow> goerror option prog" where
  "declareTopologyOnAll b =
     amqp_do OpenChannel ''broker: topology channel''
       (pbind (declareTopology (b_exchange b)) (\<lambda>r.
          Amqp CloseChannel (\<lambda>_. Return r)))"

section \<open>Opening, publishing, closing\<close>

definition Broker_New :: "broker_options \<Rightarrow> (goerror + broker) prog" where
  "Broker_New opts =
     pbind (dial (opt_URL opts)) (\<lambda>r. case r of
       Some err \<Rightarrow> Return (Inl err)
     | None \<Rightarrow>
         let b = \<lparr>b_exchange = opt_Exchange opts, b_prefetch = opt_Prefetch opts,
                  b_pubCh = False, b_consumers = [], b_closed = False\<rparr>;
             give_up = (\<lambda>err. Amqp CloseConn (\<lambda>_. Return (Inl err)))
         in pbind (declareTopologyOnAll b) (\<lambda>r. case r of
              Some err \<Rightarrow> give_up err
            | None \<Rightarrow>
                Amqp OpenChannel (\<lambda>r. case r of
                  Some err \<Rightarrow> give_up (errorf ''broker: open publish channel'' err)
                | None \<Rightarrow>
                    Amqp ConfirmMode (\<lambda>r. case r of
                      Some err \<Rightarrow> give_up (errorf ''broker: enable publisher confirms'' err)
                    | None \<Rightarrow> Return (Inr (b\<lparr>b_pubCh := True\<rparr>))))))"

definition Broker_Publish :: "broker \<Rightarrow> publisher" where
  "Broker_Publish b routingKey body =
     (if b_closed b then Return (Some (Plain ''broker: closed''))
      else TimeNow (\<lambda>now.
        Amqp (PublishConfirm (b_exchange b) routingKey
                \<lparr>p_ContentType = ''application/json'', p_Persistent = True,
                 p_Headers = Map.empty, p_Timestamp = now, p_Body = body\<rparr>)
          (\<lambda>r. case r of
             Some err \<Rightarrow> Return (Some (errorf ''broker: publish'' err))
           | None \<Rightarrow>
               AwaitConfirm (\<lambda>r. case r of
                 Inl err \<Rightarrow> Return (Some (errorf ''broker: await confirm'' err))
               | Inr ack \<Rightarrow>
                   if \<not> ack then Return (Some (Plain ''broker: message nacked by broker''))
                   else Return None))))"

text \<open>\<^verbatim>\<open>Stop\<close> also waits for the consumer's goroutine to end.\<close>

definition Consumer_Stop :: "consumer \<Rightarrow> consumer" where
  "Consumer_Stop c = (if cn_stopped c then c else c\<lparr>cn_stopped := True\<rparr>)"

definition Broker_Close :: "broker \<Rightarrow> (goerror option \<times> broker) prog" where
  "Broker_Close b =
     (if b_closed b then Return (None, b)
      else let b = b\<lparr>b_closed := True, b_consumers := map Consumer_Stop (b_consumers b)\<rparr>;
               close_conn = Amqp CloseConn (\<lambda>err. Return (err, b))
           in if b_pubCh b then Amqp CloseChannel (\<lambda>_. close_conn) else close_conn)"

lemmas broker_defs [go_defs] =
  dial_def declareTopology_def declareTopologyOnAll_def amqp_do_def Broker_New_def
  Broker_Publish_def Broker_Close_def

section \<open>The broker is a publisher\<close>

lemma Publish_confirmed:
  "run E (Broker_Publish b key body) w = (None, w') \<Longrightarrow>
   confirmed key body (log E (Broker_Publish b key body) w)"
  by (auto simp: Broker_Publish_def confirmed_def split: if_splits prod.splits option.splits sum.splits)

lemma Publish_quiet: "only (\<lambda>ev. \<not> db_event ev \<and> \<not> redis_event ev) (Broker_Publish b key body)"
  by (simp add: Broker_Publish_def split: option.split sum.split)

interpretation broker_pub: publisher "Broker_Publish b" gorm_laws for b
  by unfold_locales (rule Publish_confirmed, assumption, rule Publish_quiet)

interpretation stack: service_stack NewTaskRepository gorm_laws "Broker_Publish b" for b
  by unfold_locales

section \<open>Backoff\<close>

text \<open>The time a run spent in timed waits, and how often it dialed.\<close>

fun wait_of :: "event \<Rightarrow> int" where
  "wait_of (ESelect d _) = d"
| "wait_of _ = 0"

definition waited :: "event list \<Rightarrow> int" where
  "waited evs = sum_list (map wait_of evs)"

lemma waited_simps [simp]:
  "waited [] = 0" "waited (ev # evs) = wait_of ev + waited evs"
  "waited (xs @ ys) = waited xs + waited ys"
  by (simp_all add: waited_def)

lemma waited_none: "(\<And>ev. ev \<in> set evs \<Longrightarrow> wait_of ev = 0) \<Longrightarrow> waited evs = 0"
  by (induction evs) auto

text \<open>The waits of \<open>n\<close> failed attempts that start with the backoff \<open>b\<close>.\<close>

primrec wait_budget :: "nat \<Rightarrow> int \<Rightarrow> int" where
  "wait_budget 0 b = 0"
| "wait_budget (Suc n) b = b + wait_budget n (next_backoff b)"

lemma next_backoff_pos: "0 < b \<Longrightarrow> 0 < next_backoff b"
  by (simp add: next_backoff_def)

lemma wait_budget_nonneg: "0 < b \<Longrightarrow> 0 \<le> wait_budget n b"
  by (induction n arbitrary: b) (auto intro: add_nonneg_nonneg simp: next_backoff_pos)

lemma wait_budget_ten: "wait_budget 10 (500 * millisecond) = 55500 * millisecond"
  by (simp add: eval_nat_numeral next_backoff_def)

fun dial_event :: "event \<Rightarrow> bool" where
  "dial_event (EBoot (AmqpDial _) _) \<longleftrightarrow> True"
| "dial_event _ \<longleftrightarrow> False"

definition dials :: "event list \<Rightarrow> nat" where
  "dials evs = length (filter dial_event evs)"

lemma dials_simps [simp]:
  "dials [] = 0" "dials (ev # evs) = (if dial_event ev then Suc (dials evs) else dials evs)"
  "dials (xs @ ys) = dials xs + dials ys"
  by (simp_all add: dials_def)

lemma dial_loop_bounds:
  assumes "0 < b"
  shows "dials (log E (dial_loop n url b) w) \<le> Suc n \<and>
         waited (log E (dial_loop n url b) w) \<le> wait_budget (Suc n) b \<and>
         (fst (run E (dial_loop n url b) w) = None \<longleftrightarrow>
            EBoot (AmqpDial url) None \<in> set (log E (dial_loop n url b) w)) \<and>
         (fst (run E (dial_loop n url b) w) = None \<or>
          dials (log E (dial_loop n url b) w) = Suc n \<and>
            waited (log E (dial_loop n url b) w) = wait_budget (Suc n) b \<or>
          (\<exists>d. ESelect d True \<in> set (log E (dial_loop n url b) w)))"
  using assms
proof (induction n arbitrary: b w)
  case 0
  then show ?case
    by (subst (1 2 3 4 5 6 7 8) dial_loop.simps) (auto split: prod.split option.split)
next
  case (Suc n)
  obtain r u where r: "on_boot E (AmqpDial url) w = (r, u)" by fastforce
  obtain c v where c: "on_select E b u = (c, v)" by fastforce
  note ih = Suc.IH [OF next_backoff_pos [OF Suc.prems], of v]
  have pos: "0 \<le> wait_budget n (next_backoff (next_backoff b))" "0 < next_backoff b"
    by (intro wait_budget_nonneg next_backoff_pos Suc.prems)+
  show ?case
  proof (cases "r = None \<or> c")
    case True
    then show ?thesis
      using r c pos Suc.prems
      by (subst (1 2 3 4 5 6 7 8) dial_loop.simps) (auto split: option.split)
  next
    case False
    then have "log E (dial_loop (Suc n) url b) w =
        EBoot (AmqpDial url) r # ESelect b False # log E (dial_loop n url (next_backoff b)) v"
      and "run E (dial_loop (Suc n) url b) w = run E (dial_loop n url (next_backoff b)) v"
      using r c by (auto simp: dial_loop.simps [of "Suc n"])
    with ih False show ?thesis by auto
  qed
qed

text \<open>
  C31: Dialing is bounded. It tries at most ten times and waits at most 55.5 seconds in
  all; it succeeds exactly when one dial succeeded; and a failure means that all ten dials
  failed after the full 55.5 seconds of backoff (the wait after the last attempt included),
  or that a wait was cut short by the context.
\<close>

theorem dial_bounded:
  "dials (log E (dial url) w) \<le> 10 \<and>
   waited (log E (dial url) w) \<le> 55500 * millisecond \<and>
   (fst (run E (dial url) w) = None \<longleftrightarrow>
      EBoot (AmqpDial url) None \<in> set (log E (dial url) w)) \<and>
   (fst (run E (dial url) w) = None \<or>
    dials (log E (dial url) w) = 10 \<and> waited (log E (dial url) w) = 55500 * millisecond \<or>
    (\<exists>d. ESelect d True \<in> set (log E (dial url) w)))"
proof -
  have ten: "Suc 9 = 10" and pos: "(0 :: int) < 500 * millisecond" by simp_all
  show ?thesis
    using dial_loop_bounds [OF pos, of E 9 url w] unfolding dial_def ten wait_budget_ten .
qed

section \<open>Opening a broker\<close>

lemma dial_success:
  "run E (dial url) w = (r, w') \<Longrightarrow>
   r = None \<longleftrightarrow> EBoot (AmqpDial url) None \<in> set (log E (dial url) w)"
  using dial_loop_bounds [of "500 * millisecond" E 9 url w] by (simp add: dial_def)

lemma dial_calls: "only (\<lambda>ev. \<not> db_event ev \<and> \<not> redis_event ev \<and> \<not> amqp_event ev) (dial url)"
proof -
  have "only (\<lambda>ev. \<not> db_event ev \<and> \<not> redis_event ev \<and> \<not> amqp_event ev) (dial_loop n url b)" for n b
    by (induction n arbitrary: b) (subst dial_loop.simps, simp split: option.split)+
  then show ?thesis by (simp add: dial_def)
qed

text \<open>
  No connection leaks. If opening a broker succeeds the connection was dialed and is
  not closed, and the broker is open with a publishing channel; if it fails after the dial
  succeeded, closing the connection was the last thing it did.
\<close>

lemma Broker_New_resources:
  "case run E (Broker_New opts) w of
     (Inr b, w') \<Rightarrow>
       EBoot (AmqpDial (opt_URL opts)) None \<in> set (log E (Broker_New opts) w) \<and>
       (\<forall>r. EAmqp CloseConn r \<notin> set (log E (Broker_New opts) w)) \<and>
       EAmqp ConfirmMode None \<in> set (log E (Broker_New opts) w) \<and>
       b = \<lparr>b_exchange = opt_Exchange opts, b_prefetch = opt_Prefetch opts,
             b_pubCh = True, b_consumers = [], b_closed = False\<rparr>
   | (Inl e, w') \<Rightarrow>
       (if EBoot (AmqpDial (opt_URL opts)) None \<in> set (log E (Broker_New opts) w)
        then \<exists>r. last (log E (Broker_New opts) w) = EAmqp CloseConn r else True)"
proof -
  obtain d u where d: "run E (dial (opt_URL opts)) w = (d, u)" by fastforce
  show ?thesis
  proof (cases d)
    case (Some e)
    then show ?thesis
      using dial_success [OF d] d by (simp add: Broker_New_def)
  next
    case None
    have "only (\<lambda>ev. \<forall>r. ev \<noteq> EAmqp CloseConn r) (declareTopologyOnAll b)" for b
      by (auto simp: declareTopologyOnAll_def declareTopology_def amqp_do_def split: option.split)
    then have topo: "EAmqp CloseConn r \<notin> set (log E (declareTopologyOnAll b) x)" for b r x
      by (blast dest: only_log)
    have dl: "EAmqp CloseConn r \<notin> set (log E (dial url) x)" for r url x
      by (auto dest: only_log [OF dial_calls])
    show ?thesis
      using dial_success [OF d] d None topo dl
      by (simp add: Broker_New_def Let_def split: prod.split option.split)
  qed
qed

end
