(* ===== verification/Consumer.thy ===== *)
theory Consumer
  imports Broker
begin

text \<open>
  \<^verbatim>\<open>internal/broker/consumer.go\<close>: reading a queue, retrying failed messages with a
  counter in a header, dead-lettering them, and reopening the channel when it fails. The
  two loops run with fuel; \<open>Running\<close> is the result of a loop that has used it up, so
  what is proved of every fuel holds of every prefix of the loop's work. The locale
  \<open>message_handler\<close> is what the consumer relies on from the function it calls.
\<close>

section \<open>Retrying\<close>

definition MaxRetries :: int where "MaxRetries = 3"

definition retryCount :: "headers \<Rightarrow> string \<Rightarrow> int" where
  "retryCount h key =
     (case h key of
        None \<Rightarrow> 0
      | Some v \<Rightarrow>
          (case v of
             HInt32 n \<Rightarrow> sint n
           | HInt64 n \<Rightarrow> sint n
           | HInt n \<Rightarrow> sint n
           | HString s \<Rightarrow> (case atoi s of None \<Rightarrow> 0 | Some i \<Rightarrow> i)
           | HOther \<Rightarrow> 0))"

text \<open>
  The delay that is logged with a retry, a 64-bit duration; a negative counter becomes a
  shift by a huge amount, which gives zero.
\<close>

definition retry_delay :: "int \<Rightarrow> 64 word" where
  "retry_delay retries =
     (let k = uint (word_of_int retries :: 64 word)
      in (if k < 64 then push_bit (nat k) 1 else 0) * word_of_int second)"

definition retry_message :: "delivery \<Rightarrow> int \<Rightarrow> publishing" where
  "retry_message d now =
     \<lparr>p_ContentType = d_ContentType d, p_Persistent = True,
      p_Headers = (d_Headers d)(headerRetryCount \<mapsto>
        HInt32 (word_of_int (retryCount (d_Headers d) headerRetryCount + 1))),
      p_Timestamp = now, p_Body = d_Body d\<rparr>"

definition Consumer_retryOrDeadLetter :: "consumer \<Rightarrow> delivery \<Rightarrow> unit prog" where
  "Consumer_retryOrDeadLetter c d =
     (let retries = retryCount (d_Headers d) headerRetryCount
      in if retries \<ge> MaxRetries then Amqp (Nack (d_Tag d) False) (\<lambda>err. Return ())
         else TimeNow (\<lambda>now.
           Amqp (PublishPlain '''' (cn_queue c) (retry_message d now)) (\<lambda>r. case r of
             Some err \<Rightarrow> Amqp (Nack (d_Tag d) False) (\<lambda>err. Return ())
           | None \<Rightarrow> Amqp (Ack (d_Tag d)) (\<lambda>err. Return ()))))"

definition Consumer_handle :: "consumer \<Rightarrow> delivery \<Rightarrow> unit prog" where
  "Consumer_handle c d =
     pbind (cn_handler c (d_Body d)) (\<lambda>r. case r of
       Some err \<Rightarrow> Consumer_retryOrDeadLetter c d
     | None \<Rightarrow> Amqp (Ack (d_Tag d)) (\<lambda>err. Return ()))"

section \<open>The consumer's loops\<close>

datatype loop_end = Running | Ended "goerror option"

fun consume_loop :: "nat \<Rightarrow> consumer \<Rightarrow> loop_end prog" where
  "consume_loop 0 c = Return Running"
| "consume_loop (Suc n) c =
     AwaitDelivery (\<lambda>a. case a of
       Stopped \<Rightarrow> Return (Ended None)
     | DeliveriesClosed \<Rightarrow> Return (Ended (Some (Plain ''delivery channel closed'')))
     | Delivered d \<Rightarrow> pbind (Consumer_handle c d) (\<lambda>_. consume_loop n c))"

text \<open>The channel is closed by a deferred call on every way out.\<close>

definition Consumer_consumeOnce :: "nat \<Rightarrow> consumer \<Rightarrow> string \<Rightarrow> loop_end prog" where
  "Consumer_consumeOnce fuel c exchange =
     Amqp OpenChannel (\<lambda>r. case r of
       Some err \<Rightarrow> Return (Ended (Some (errorf ''open channel'' err)))
     | None \<Rightarrow>
         pbind
           (pbind (declareTopology exchange) (\<lambda>r. case r of
              Some err \<Rightarrow> Return (Ended (Some err))
            | None \<Rightarrow>
                Amqp (Qos (cn_prefetch c)) (\<lambda>r. case r of
                  Some err \<Rightarrow> Return (Ended (Some (errorf ''set qos'' err)))
                | None \<Rightarrow>
                    Amqp (Consume (cn_queue c) False) (\<lambda>r. case r of
                      Some err \<Rightarrow> Return (Ended (Some (errorf ''consume'' err)))
                    | None \<Rightarrow> consume_loop fuel c))))
           (\<lambda>res. case res of
              Running \<Rightarrow> Return Running
            | Ended e \<Rightarrow> Amqp CloseChannel (\<lambda>_. Return (Ended e))))"

datatype run_end = StillRunning | CleanShutdown | StoppedWaiting | GaveUp

text \<open>\<open>run_loop n\<close> opens the channel once and, after failures, at most \<open>n\<close> more times.\<close>

fun run_loop :: "nat \<Rightarrow> nat \<Rightarrow> consumer \<Rightarrow> string \<Rightarrow> int \<Rightarrow> run_end prog" where
  "run_loop fuel n c exchange backoff =
     pbind (Consumer_consumeOnce fuel c exchange) (\<lambda>res. case res of
       Running \<Rightarrow> Return StillRunning
     | Ended None \<Rightarrow> Return CleanShutdown
     | Ended (Some err) \<Rightarrow>
         SelectDone backoff (\<lambda>stopped.
           if stopped then Return StoppedWaiting
           else case n of
                  0 \<Rightarrow> Return GaveUp
                | Suc m \<Rightarrow> run_loop fuel m c exchange (next_backoff backoff)))"

declare run_loop.simps [simp del]

definition Consumer_run :: "nat \<Rightarrow> consumer \<Rightarrow> string \<Rightarrow> run_end prog" where
  "Consumer_run fuel c exchange = run_loop fuel 9 c exchange (500 * millisecond)"

section \<open>Starting a consumer\<close>

record consumer_options =
  co_Queue :: string
  co_Prefetch :: int
  co_Handler :: "handler option"

text \<open>The last component is the goroutine that is started.\<close>

definition NewConsumer ::
  "broker \<Rightarrow> consumer_options \<Rightarrow> goerror + consumer \<times> broker \<times> (nat \<Rightarrow> run_end prog)" where
  "NewConsumer b opts =
     (case co_Handler opts of
        None \<Rightarrow> Inl (Plain ''broker: consumer handler is nil'')
      | Some h \<Rightarrow>
          let prefetch = (if co_Prefetch opts \<le> 0 then b_prefetch b else co_Prefetch opts);
              c = \<lparr>cn_queue = co_Queue opts, cn_handler = h, cn_prefetch = prefetch,
                    cn_stopped = False\<rparr>
          in Inr (c, b\<lparr>b_consumers := b_consumers b @ [c]\<rparr>,
                  \<lambda>fuel. Consumer_run fuel c (b_exchange b)))"

definition DecodeJSON :: "(bytes \<Rightarrow> goerror + 'a) \<Rightarrow> bytes \<Rightarrow> goerror + 'a" where
  "DecodeJSON unmarshal body =
     (case unmarshal body of Inl err \<Rightarrow> Inl (errorf ''decode json'' err) | Inr x \<Rightarrow> Inr x)"

lemmas consumer_defs [go_defs] =
  Consumer_retryOrDeadLetter_def Consumer_handle_def Consumer_consumeOnce_def Consumer_run_def

section \<open>What a handler may do\<close>

text \<open>
  Only the consumer settles and republishes deliveries and waits; handlers do not. The
  contract makes a failure of the handler the only cause of a retry.
\<close>

fun consumer_event :: "event \<Rightarrow> bool" where
  "consumer_event (EAmqp (Ack _) _) \<longleftrightarrow> True"
| "consumer_event (EAmqp (Nack _ _) _) \<longleftrightarrow> True"
| "consumer_event (EAmqp (PublishPlain _ _ _) _) \<longleftrightarrow> True"
| "consumer_event (EAmqp OpenChannel _) \<longleftrightarrow> True"
| "consumer_event (EDelivery _) \<longleftrightarrow> True"
| "consumer_event (ESelect _ _) \<longleftrightarrow> True"
| "consumer_event _ \<longleftrightarrow> False"

definition settlement :: "consumer \<Rightarrow> delivery \<Rightarrow> bool \<Rightarrow> event list \<Rightarrow> bool" where
  "settlement c d bad evs \<longleftrightarrow>
     (if \<not> bad then \<exists>r. evs = [EAmqp (Ack (d_Tag d)) r]
      else if MaxRetries \<le> retryCount (d_Headers d) headerRetryCount
      then \<exists>r. evs = [EAmqp (Nack (d_Tag d) False) r]
      else \<exists>now r.
        evs = [EAmqp (PublishPlain '''' (cn_queue c) (retry_message d now)) None,
               EAmqp (Ack (d_Tag d)) r] \<or>
        (\<exists>e. evs = [EAmqp (PublishPlain '''' (cn_queue c) (retry_message d now)) (Some e),
                    EAmqp (Nack (d_Tag d) False) r]))"

fun open_event :: "event \<Rightarrow> bool" where
  "open_event (EAmqp OpenChannel _) \<longleftrightarrow> True"
| "open_event _ \<longleftrightarrow> False"

definition opens :: "event list \<Rightarrow> nat" where
  "opens evs = length (filter open_event evs)"

lemma opens_simps [simp]:
  "opens [] = 0" "opens (ev # evs) = (if open_event ev then Suc (opens evs) else opens evs)"
  "opens (xs @ ys) = opens xs + opens ys"
  by (simp_all add: opens_def)

fun delivered_tag :: "event \<Rightarrow> nat option" where
  "delivered_tag (EDelivery (Delivered d)) = Some (d_Tag d)"
| "delivered_tag _ = None"

fun settled_tag :: "event \<Rightarrow> nat option" where
  "settled_tag (EAmqp (Ack tag) _) = Some tag"
| "settled_tag (EAmqp (Nack tag _) _) = Some tag"
| "settled_tag _ = None"

definition tags :: "(event \<Rightarrow> nat option) \<Rightarrow> event list \<Rightarrow> nat list" where
  "tags f evs = List.map_filter f evs"

lemma tags_simps [simp]:
  "tags f [] = []" "tags f (xs @ ys) = tags f xs @ tags f ys"
  "tags f (ev # evs) = (case f ev of None \<Rightarrow> tags f evs | Some t \<Rightarrow> t # tags f evs)"
  by (auto simp: tags_def map_filter_simps map_filter_def split: option.splits)

lemma tags_none: "(\<And>ev. ev \<in> set evs \<Longrightarrow> f ev = None) \<Longrightarrow> tags f evs = []"
  by (induction evs) auto

lemma retryOrDeadLetter_settles:
  "settlement c d True (filter consumer_event (log E (Consumer_retryOrDeadLetter c d) w))"
  by (auto simp: Consumer_retryOrDeadLetter_def settlement_def Let_def split: prod.split option.split)

locale message_handler =
  fixes c :: consumer
  assumes handler_calls: "only (\<lambda>ev. \<not> consumer_event ev) (cn_handler c body)"
begin

lemma handler_quiet: "filter consumer_event (log E (cn_handler c body) w) = []"
  by (auto simp: filter_empty_conv dest: only_log [OF handler_calls])

lemma handle_settles:
  "settlement c d (fst (run E (cn_handler c (d_Body d)) w) \<noteq> None)
     (filter consumer_event (log E (Consumer_handle c d) w))"
proof -
  obtain r u where r: "run E (cn_handler c (d_Body d)) w = (r, u)" by fastforce
  show ?thesis
    using r handler_quiet [of E "d_Body d" w] retryOrDeadLetter_settles [of c d E u]
    by (cases r) (auto simp: Consumer_handle_def settlement_def split: prod.split)
qed

lemma handle_tags:
  "tags delivered_tag (log E (Consumer_handle c d) w) = []"
  "tags settled_tag (log E (Consumer_handle c d) w) = [d_Tag d]"
proof -
  have flt: "tags f (filter consumer_event evs) = tags f evs"
    if "\<And>ev. \<not> consumer_event ev \<Longrightarrow> f ev = None" for f evs
    using that by (induction evs) (auto split: option.split)
  have d: "delivered_tag ev = None" "settled_tag ev = None" if "\<not> consumer_event ev" for ev
    using that by (cases ev rule: consumer_event.cases; simp)+
  have "tags delivered_tag (filter consumer_event (log E (Consumer_handle c d) w)) = []"
    and "tags settled_tag (filter consumer_event (log E (Consumer_handle c d) w)) = [d_Tag d]"
    using handle_settles [of d E w] by (auto simp: settlement_def split: if_splits)
  with flt d show "tags delivered_tag (log E (Consumer_handle c d) w) = []"
    "tags settled_tag (log E (Consumer_handle c d) w) = [d_Tag d]" by metis+
qed

lemma loop_tags:
  "tags settled_tag (log E (consume_loop n c) w) = tags delivered_tag (log E (consume_loop n c) w)"
  by (induction n arbitrary: w) (simp_all add: handle_tags split: prod.split arrival.split)

lemma topology_quiet: "only (\<lambda>ev. \<not> consumer_event ev) (declareTopology exchange)"
  by (simp add: declareTopology_def amqp_do_def split: option.split)

lemma quiet_tags:
  assumes "only (\<lambda>ev. \<not> consumer_event ev) p"
  shows "tags delivered_tag (log E p w) = []" "tags settled_tag (log E p w) = []"
    "waited (log E p w) = 0" "opens (log E p w) = 0"
proof -
  have "delivered_tag ev = None \<and> settled_tag ev = None \<and> wait_of ev = 0 \<and> \<not> open_event ev"
    if "ev \<in> set (log E p w)" for ev
    using only_log [OF assms that] by (cases ev rule: consumer_event.cases) simp_all
  then show "tags delivered_tag (log E p w) = []" "tags settled_tag (log E p w) = []"
    "waited (log E p w) = 0" "opens (log E p w) = 0"
    by (auto simp: opens_def filter_empty_conv intro!: tags_none waited_none)
qed

lemmas topology_tags = quiet_tags [OF topology_quiet]

lemma handle_waits:
  "waited (log E (Consumer_handle c d) w) = 0" "opens (log E (Consumer_handle c d) w) = 0"
  using quiet_tags(3,4) [OF handler_calls]
  by (auto simp: Consumer_handle_def Consumer_retryOrDeadLetter_def Let_def
      split: prod.split option.split)

lemma loop_waits:
  "waited (log E (consume_loop n c) w) = 0" "opens (log E (consume_loop n c) w) = 0"
  by (induction n arbitrary: w) (simp_all add: handle_waits split: prod.split arrival.split)

text \<open>The loop ends by itself unless it handles as many deliveries as it has fuel.\<close>

lemma loop_fuel:
  "length (tags delivered_tag (log E (consume_loop n c) w)) \<le> n \<and>
   (fst (run E (consume_loop n c) w) = Running \<longleftrightarrow>
      length (tags delivered_tag (log E (consume_loop n c) w)) = n)"
  by (induction n arbitrary: w) (simp_all add: handle_tags split: prod.split arrival.split)

lemma once_tags:
  "tags settled_tag (log E (Consumer_consumeOnce n c x) w) =
     tags delivered_tag (log E (Consumer_consumeOnce n c x) w)"
  "waited (log E (Consumer_consumeOnce n c x) w) = 0"
  "opens (log E (Consumer_consumeOnce n c x) w) = 1"
  by (auto simp: Consumer_consumeOnce_def loop_tags loop_waits topology_tags
      split: prod.split option.split loop_end.split)

lemma run_tags:
  "tags settled_tag (log E (run_loop fuel n c x b) w) =
     tags delivered_tag (log E (run_loop fuel n c x b) w)"
  by (induction n arbitrary: b w)
     (subst (1 2) run_loop.simps, auto simp: once_tags split: prod.split option.split loop_end.split)+

lemma run_bounds:
  assumes "0 < b"
  shows "opens (log E (run_loop fuel n c x b) w) \<le> Suc n \<and>
         waited (log E (run_loop fuel n c x b) w) \<le> wait_budget (Suc n) b \<and>
         (fst (run E (run_loop fuel n c x b) w) = GaveUp \<longrightarrow>
            opens (log E (run_loop fuel n c x b) w) = Suc n \<and>
            waited (log E (run_loop fuel n c x b) w) = wait_budget (Suc n) b)"
  using assms
proof (induction n arbitrary: b w)
  case 0
  then show ?case
    by (subst (1 2 3 4 5) run_loop.simps)
       (auto simp: once_tags split: prod.split option.split loop_end.split)
next
  case (Suc n)
  have pos: "0 \<le> wait_budget n (next_backoff (next_backoff b))" "0 < next_backoff b" "0 < b"
    by (intro wait_budget_nonneg next_backoff_pos Suc.prems)+
  have ih: "opens (log E (run_loop fuel n c x (next_backoff b)) u) \<le> Suc n"
      "waited (log E (run_loop fuel n c x (next_backoff b)) u) \<le> wait_budget (Suc n) (next_backoff b)"
      "fst (run E (run_loop fuel n c x (next_backoff b)) u) = GaveUp \<Longrightarrow>
        opens (log E (run_loop fuel n c x (next_backoff b)) u) = Suc n \<and>
        waited (log E (run_loop fuel n c x (next_backoff b)) u) = wait_budget (Suc n) (next_backoff b)"
    for u using Suc.IH [OF pos(2), of u] by auto
  obtain res u where res: "run E (Consumer_consumeOnce fuel c x) w = (res, u)" by fastforce
  obtain s v where s: "on_select E b u = (s, v)" by fastforce
  note unf = run_loop.simps [of fuel "Suc n"]
  show ?case
  proof (cases "(\<exists>err. res = Ended (Some err)) \<and> \<not> s")
    case True
    then obtain err where err: "res = Ended (Some err)" "\<not> s" by blast
    have "log E (run_loop fuel (Suc n) c x b) w = log E (Consumer_consumeOnce fuel c x) w @
        ESelect b False # log E (run_loop fuel n c x (next_backoff b)) v"
      and "run E (run_loop fuel (Suc n) c x b) w = run E (run_loop fuel n c x (next_backoff b)) v"
      using res s err unf by simp_all
    with ih [of v] show ?thesis by (auto simp: once_tags)
  next
    case False
    show ?thesis
    proof (cases res)
      case Running
      with res pos show ?thesis by (simp add: unf once_tags)
    next
      case (Ended e)
      with res s pos False show ?thesis by (cases e) (simp_all add: unf once_tags)
    qed
  qed
qed

end

section \<open>Chains of retries\<close>

text \<open>
  \<open>retried E c d d'\<close>: in some run, handling \<open>d\<close> republished it, and \<open>d'\<close> delivers the
  republished message: AMQP carries headers, content type and body unchanged.
\<close>

inductive retried :: "'w env \<Rightarrow> consumer \<Rightarrow> delivery \<Rightarrow> delivery \<Rightarrow> bool" for E c where
  retry:
    "EAmqp (PublishPlain '''' (cn_queue c) p) None \<in> set (log E (Consumer_handle c d) w) \<Longrightarrow>
     d_Headers d' = p_Headers p \<Longrightarrow> d_ContentType d' = p_ContentType p \<Longrightarrow>
     d_Body d' = p_Body p \<Longrightarrow> retried E c d d'"

inductive_cases retriedE: "retried E c d d'"

abbreviation retries_of :: "delivery \<Rightarrow> int" where
  "retries_of d \<equiv> retryCount (d_Headers d) headerRetryCount"

lemma retryCount_int32:
  "0 \<le> r \<Longrightarrow> r < MaxRetries \<Longrightarrow>
   retryCount (h(k \<mapsto> HInt32 (word_of_int (r + 1)))) k = r + 1"
proof -
  assume "0 \<le> r" "r < MaxRetries"
  then have "r = 0 \<or> r = 1 \<or> r = 2" by (auto simp: MaxRetries_def)
  then show ?thesis by (auto simp: retryCount_def)
qed

lemma settlement_retry:
  "settlement c d bad evs \<Longrightarrow> EAmqp (PublishPlain '''' q p) None \<in> set evs \<Longrightarrow>
   (\<exists>now. p = retry_message d now) \<and> retries_of d < MaxRetries"
  by (auto simp: settlement_def split: if_splits)

context message_handler
begin

lemma retried_step:
  assumes "retried E c d d'"
  shows "retries_of d < MaxRetries \<and> d_Body d' = d_Body d \<and> d_ContentType d' = d_ContentType d \<and>
         d_Headers d' = (d_Headers d)(headerRetryCount \<mapsto> HInt32 (word_of_int (retries_of d + 1)))"
  using assms
proof (rule retriedE)
  fix p w
  assume "EAmqp (PublishPlain '''' (cn_queue c) p) None \<in> set (log E (Consumer_handle c d) w)"
    and d': "d_Headers d' = p_Headers p" "d_ContentType d' = p_ContentType p" "d_Body d' = p_Body p"
  then have "EAmqp (PublishPlain '''' (cn_queue c) p) None \<in>
      set (filter consumer_event (log E (Consumer_handle c d) w))" by simp
  from settlement_retry [OF handle_settles this]
  obtain now where "p = retry_message d now" "retries_of d < MaxRetries" by blast
  then show ?thesis using d' by (simp add: retry_message_def)
qed

lemma retried_chain:
  assumes "(retried E c ^^ n) d d'" and "0 \<le> retries_of d" "retries_of d \<le> MaxRetries"
  shows "retries_of d' = retries_of d + int n \<and> retries_of d' \<le> MaxRetries \<and>
         d_Body d' = d_Body d \<and> d_ContentType d' = d_ContentType d \<and>
         (\<forall>k. k \<noteq> headerRetryCount \<longrightarrow> d_Headers d' k = d_Headers d k)"
  using assms(1)
proof (induction n arbitrary: d')
  case 0
  then show ?case using assms(3) by simp
next
  case (Suc n)
  then obtain e where e: "(retried E c ^^ n) d e" "retried E c e d'" by auto
  note ih = Suc.IH [OF e(1)] and stp = retried_step [OF e(2)]
  have "0 \<le> retries_of e" using ih assms(2) by simp
  then have "retries_of d' = retries_of e + 1"
    using stp retryCount_int32 [of "retries_of e"] by metis
  moreover have "retries_of e < MaxRetries" "d_Body d' = d_Body e" "d_ContentType d' = d_ContentType e"
    and "\<forall>k. k \<noteq> headerRetryCount \<longrightarrow> d_Headers d' k = d_Headers e k"
    using stp by simp_all
  ultimately show ?case using ih by (simp add: MaxRetries_def)
qed

end

end
