(* ===== verification/Dedupe_Guard.thy ===== *)
theory Dedupe_Guard
  imports Task_Service
begin

text \<open>
  \<^verbatim>\<open>internal/broker/dedupe.go\<close>: the Redis guard that lets each event ID through
  once.
\<close>

definition DedupeKeyPrefix :: string where "DedupeKeyPrefix = ''processed:event:''"

definition dedupe_key :: "string \<Rightarrow> string" where
  "dedupe_key eventID = DedupeKeyPrefix @ eventID"

record dedupe =
  dd_ttl :: int

definition NewDedupe :: "int \<Rightarrow> dedupe" where
  "NewDedupe ttl = (let ttl = (if ttl \<le> 0 then 24 * hour else ttl) in \<lparr>dd_ttl = ttl\<rparr>)"

definition Dedupe_Claim :: "lib \<Rightarrow> dedupe \<Rightarrow> string \<Rightarrow> bool prog" where
  "Dedupe_Claim L d eventID =
     (if eventID = '''' then Return True
      else TimeNow (\<lambda>now.
        RedisSetNX (dedupe_key eventID) (time_Format L now) (dd_ttl d) (\<lambda>r. case r of
          Inl err \<Rightarrow> Return True
        | Inr ok \<Rightarrow> Return ok)))"

definition Dedupe_Release :: "dedupe \<Rightarrow> string \<Rightarrow> unit prog" where
  "Dedupe_Release d eventID =
     (if eventID = '''' then Return ()
      else RedisDo (Del (dedupe_key eventID)) (\<lambda>err. Return ()))"

lemmas dedupe_defs [go_defs] = Dedupe_Claim_def Dedupe_Release_def

lemma dedupe_key_inj [simp]: "dedupe_key a = dedupe_key b \<longleftrightarrow> a = b"
  by (simp add: dedupe_key_def)

lemma dedupe_key_task_key [simp]: "dedupe_key a \<noteq> task_key i" "task_key i \<noteq> dedupe_key a"
  by (simp_all add: dedupe_key_def task_key_def DedupeKeyPrefix_def taskCacheKeyPrefix_def)

lemma Claim_no_db: "only (\<lambda>ev. \<not> db_event ev \<and> \<not> amqp_event ev) (Dedupe_Claim L d i)"
  by (simp add: Dedupe_Claim_def split: sum.split)

lemma Release_no_db: "only (\<lambda>ev. \<not> db_event ev \<and> \<not> amqp_event ev) (Dedupe_Release d i)"
  by (simp add: Dedupe_Release_def)

text \<open>One claim and one release when Redis answers and loses nothing.\<close>

lemma Claim_durable:
  assumes "redis_durable E V" "eventID \<noteq> ''''" "run E (Dedupe_Claim L d eventID) w = (b, w')"
    and "list_all (\<lambda>ev. \<not> failed ev) (log E (Dedupe_Claim L d eventID) w)"
  shows "b = (kv V w (dedupe_key eventID) = None) \<and> kv V w' (dedupe_key eventID) \<noteq> None \<and>
         (\<not> b \<longrightarrow> kv V w' = kv V w)"
proof -
  obtain t u v where u: "on_now E w = (t, u)"
      "on_setnx E (dedupe_key eventID) v (dd_ttl d) u = (Inr b, w')"
    using assms(2-4) by (auto simp: Dedupe_Claim_def split: prod.splits sum.splits)
  from setnx_durable [OF assms(1) u(2)] now_durable [OF assms(1) u(1)] show ?thesis by auto
qed

lemma Release_durable:
  assumes "redis_durable E V" "eventID \<noteq> ''''" "run E (Dedupe_Release d eventID) w = (u, w')"
    and "list_all (\<lambda>ev. \<not> failed ev) (log E (Dedupe_Release d eventID) w)"
  shows "kv V w' (dedupe_key eventID) = None"
proof -
  obtain e where e: "on_redis E (Del (dedupe_key eventID)) w = (e, w')"
    using assms(2,3) by (auto simp: Dedupe_Release_def split: prod.splits)
  with assms(2,4) have "e = None" by (simp add: Dedupe_Release_def)
  with del_durable [OF assms(1) e] show ?thesis by simp
qed

text \<open>
  While Redis keeps its entries, an event is let through once. A claim that returns
  true for a non-empty event ID, with no error from Redis on the way, leaves the marker
  behind; from any later state in which the marker is still there, every further claim of
  that event without a Redis error returns false, and still does after other commands on
  other keys.
\<close>

lemma Claim_once:
  assumes "redis_durable E V" and "eventID \<noteq> ''''"
    and "run E (Dedupe_Claim L d eventID) w = (True, w1)"
    and "\<forall>ev \<in> set (log E (Dedupe_Claim L d eventID) w). \<not> failed ev"
    and "kv V w2 (dedupe_key eventID) = kv V w1 (dedupe_key eventID)"
    and "run E (Dedupe_Claim L d eventID) w2 = (b, w3)"
    and "\<forall>ev \<in> set (log E (Dedupe_Claim L d eventID) w2). \<not> failed ev"
  shows "kv V w (dedupe_key eventID) = None \<and> \<not> b \<and> kv V w3 = kv V w2"
proof -
  let ?k = "dedupe_key eventID"
  note claim = setnx_durable [OF assms(1)] and now = now_durable [OF assms(1)]
  obtain t u v where u: "on_now E w = (t, u)" "on_setnx E ?k v (dd_ttl d) u = (Inr True, w1)"
    using assms(2-4) by (auto simp: Dedupe_Claim_def split: prod.splits sum.splits)
  obtain t' u' v' where u': "on_now E w2 = (t', u')" "on_setnx E ?k v' (dd_ttl d) u' = (Inr b, w3)"
    using assms(2,6,7) by (auto simp: Dedupe_Claim_def split: prod.splits sum.splits)
  from claim [OF u(2)] now [OF u(1)] have "kv V w ?k = None" "kv V w1 ?k \<noteq> None" by auto
  with claim [OF u'(2)] now [OF u'(1)] assms(5) show ?thesis by auto
qed

lemma Claim_once_witness:
  "\<exists>w1 w3. run mem_env (Dedupe_Claim mem_lib (NewDedupe 0) ''e1'') mem_empty = (True, w1) \<and>
           run mem_env (Dedupe_Claim mem_lib (NewDedupe 0) ''e1'') w1 = (False, w3) \<and>
           m_kv w3 = m_kv w1"
proof -
  let ?p = "Dedupe_Claim mem_lib (NewDedupe 0) ''e1''"
  have nofail: "\<forall>ev \<in> set (log mem_env ?p w). \<not> failed ev" if "m_faults w = []" for w
    using that by (simp add: Dedupe_Claim_def mem_env_def faulty_def pop_fault_def mem_setnx_def)
  have "run mem_env ?p mem_empty = (True, snd (run mem_env ?p mem_empty))"
    by (rule run_fst) code_simp
  then obtain w1 where w1: "run mem_env ?p mem_empty = (True, w1)" by blast
  then have f: "m_faults w1 = []"
    by (auto simp: Dedupe_Claim_def mem_env_def faulty_def pop_fault_def mem_setnx_def mem_empty_def)
  obtain b w3 where w3: "run mem_env ?p w1 = (b, w3)" by fastforce
  have "\<not> b \<and> kv mem_view w3 = kv mem_view w1"
    using Claim_once [OF mem_redis_durable _ w1 nofail refl w3 nofail [OF f]]
    by (simp add: mem_empty_def)
  with w1 w3 show ?thesis by auto
qed

end
