(* ===== verification/Go_Duration.thy ===== *)
theory Go_Duration
  imports Go_Strconv
begin

text \<open>
  What the configuration uses of Go's \<^verbatim>\<open>strconv\<close> and \<^verbatim>\<open>time\<close> to read booleans and
  durations, and the text of a duration. A duration is a 64-bit count of nanoseconds; a
  fraction such as \<^verbatim>\<open>1.5h\<close> goes through a double, whose rounding is spelled out. The
  values are integers, so that they compute in binary.
\<close>

section \<open>Booleans\<close>

definition ParseBool :: "string \<Rightarrow> bool option" where
  "ParseBool s =
     (if s \<in> set [''1'', ''t'', ''T'', ''true'', ''TRUE'', ''True''] then Some True
      else if s \<in> set [''0'', ''f'', ''F'', ''false'', ''FALSE'', ''False''] then Some False
      else None)"

section \<open>Doubles\<close>

text \<open>
  A positive double is a pair of a mantissa and an exponent of two. \<open>to_double p q\<close> is the
  double nearest to \<open>p / q\<close>, ties to even; the values of this program are far from the
  limits of the exponent.
\<close>

function bit_len :: "int \<Rightarrow> int" where
  "bit_len x = (if x \<le> 0 then 0 else 1 + bit_len (x div 2))"
  by auto
termination by (relation "measure nat") auto

declare bit_len.simps [simp del]

definition round_even :: "int \<Rightarrow> int \<Rightarrow> int" where
  "round_even p q =
     (let d = p div q; r = p mod q
      in if 2 * r < q \<or> 2 * r = q \<and> d mod 2 = 0 then d else d + 1)"

definition scale_by :: "int \<Rightarrow> int \<Rightarrow> int \<Rightarrow> int \<times> int" where
  "scale_by p q e = (if e < 0 then (p * 2 ^ nat (- e), q) else (p, q * 2 ^ nat e))"

definition to_double :: "int \<Rightarrow> int \<Rightarrow> int \<times> int" where
  "to_double p q =
     (let e = bit_len p - bit_len q - 53; (p', q') = scale_by p q e
      in if p' \<ge> 2 ^ 53 * q' then (round_even p' (2 * q'), e + 1) else (round_even p' q', e))"

definition double_mult :: "int \<times> int \<Rightarrow> int \<times> int \<Rightarrow> int \<times> int" where
  "double_mult a b =
     (let (q, p) = scale_by 1 (fst a * fst b) (snd a + snd b) in to_double p q)"

definition double_floor :: "int \<times> int \<Rightarrow> int" where
  "double_floor a = (let (q, p) = scale_by 1 (fst a) (snd a) in p div q)"

section \<open>Reading a duration\<close>

definition duration_unit :: "string \<Rightarrow> int option" where
  "duration_unit u =
     (if u = ''ns'' then Some 1
      else if u = ''us'' \<or> u = [CHR 0xC2, CHR 0xB5, CHR ''s''] \<or> u = [CHR 0xCE, CHR 0xBC, CHR ''s'']
        then Some 1000
      else if u = ''ms'' then Some millisecond
      else if u = ''s'' then Some second
      else if u = ''m'' then Some minute
      else if u = ''h'' then Some hour
      else None)"

text \<open>The leading digits; \<open>None\<close> when their value exceeds \<open>2 ^ 63\<close>.\<close>

fun leading_int :: "int \<Rightarrow> string \<Rightarrow> (int \<times> string) option" where
  "leading_int x [] = Some (x, [])"
| "leading_int x (c # cs) =
     (case char_digit c of
        None \<Rightarrow> Some (x, c # cs)
      | Some d \<Rightarrow>
          if x > 2 ^ 63 div 10 \<or> 10 * x + int d > 2 ^ 63 then None
          else leading_int (10 * x + int d) cs)"

text \<open>The digits of a fraction: their value, its scale, and the rest. Digits that would
  overflow are dropped.\<close>

fun leading_fraction :: "int \<Rightarrow> int \<Rightarrow> bool \<Rightarrow> string \<Rightarrow> int \<times> int \<times> string" where
  "leading_fraction x scale over [] = (x, scale, [])"
| "leading_fraction x scale over (c # cs) =
     (case char_digit c of
        None \<Rightarrow> (x, scale, c # cs)
      | Some d \<Rightarrow>
          if over \<or> x > (2 ^ 63 - 1) div 10 \<or> 10 * x + int d > 2 ^ 63
          then leading_fraction x scale True cs
          else leading_fraction (10 * x + int d) (10 * scale) False cs)"

definition unit_char :: "char \<Rightarrow> bool" where
  "unit_char c \<longleftrightarrow> c \<noteq> CHR ''.'' \<and> char_digit c = None"

text \<open>
  One number with its unit, such as \<^verbatim>\<open>1.5h\<close>: its value in nanoseconds, as an unsigned
  64-bit integer, and the rest of the text.
\<close>

definition duration_term :: "string \<Rightarrow> (int \<times> string) option" where
  "duration_term s =
     (case leading_int 0 s of
        None \<Rightarrow> None
      | Some (v, s1) \<Rightarrow>
          let pre = length s1 \<noteq> length s;
              dot = (s1 \<noteq> [] \<and> hd s1 = CHR ''.'');
              (f, scale, s2) = (if dot then leading_fraction 0 1 False (tl s1) else (0, 1, s1));
              post = (dot \<and> length s2 \<noteq> length (tl s1));
              u = takeWhile unit_char s2
          in if \<not> pre \<and> \<not> post \<or> u = [] then None
             else (case duration_unit u of
                     None \<Rightarrow> None
                   | Some unit \<Rightarrow>
                       if v > 2 ^ 63 div unit then None
                       else
                         let frac = (if f > 0
                                     then double_floor (double_mult (to_double f 1) (to_double unit scale))
                                     else 0);
                             v' = v * unit + frac
                         in if v' > 2 ^ 63 then None else Some (v', dropWhile unit_char s2)))"

lemma leading_int_length: "leading_int x s = Some (v, r) \<Longrightarrow> length r \<le> length s"
  by (induction x s rule: leading_int.induct) (auto split: option.splits if_splits)

lemma leading_fraction_length: "leading_fraction x k b s = (f, k', r) \<Longrightarrow> length r \<le> length s"
  by (induction x k b s rule: leading_fraction.induct) (auto split: option.splits if_splits)

lemma duration_term_shorter: "duration_term s = Some (v, r) \<Longrightarrow> length r < length s"
proof -
  assume t: "duration_term s = Some (v, r)"
  then obtain x s1 where s1: "leading_int 0 s = Some (x, s1)"
    by (auto simp: duration_term_def split: option.splits)
  define s2 where "s2 = (if s1 \<noteq> [] \<and> hd s1 = CHR ''.''
    then snd (snd (leading_fraction 0 1 False (tl s1))) else s1)"
  have "length s2 \<le> length s1"
    using leading_fraction_length [of 0 1 False "tl s1"]
    by (cases "leading_fraction 0 1 False (tl s1)") (auto simp: s2_def intro: le_trans [OF _ diff_le_self])
  moreover have "takeWhile unit_char s2 \<noteq> []" and "r = dropWhile unit_char s2"
    using t s1 by (auto simp: duration_term_def s2_def Let_def split: option.splits prod.splits if_splits)
  moreover have "length s2 = length (takeWhile unit_char s2) + length (dropWhile unit_char s2)"
    by (metis length_append takeWhile_dropWhile_id)
  ultimately show ?thesis using leading_int_length [OF s1] by (cases "takeWhile unit_char s2") auto
qed

text \<open>The sum is an unsigned 64-bit addition.\<close>

function duration_terms :: "int \<Rightarrow> string \<Rightarrow> int option" where
  "duration_terms d s =
     (if s = [] then Some d
      else (case duration_term s of
              None \<Rightarrow> None
            | Some (v, r) \<Rightarrow>
                let d' = (d + v) mod 2 ^ 64
                in if d' > 2 ^ 63 then None else duration_terms d' r))"
  by auto
termination by (relation "measure (length \<circ> snd)") (auto dest: duration_term_shorter)

declare duration_terms.simps [simp del]

definition ParseDuration :: "string \<Rightarrow> int option" where
  "ParseDuration text =
     (let neg = (text \<noteq> [] \<and> hd text = CHR ''-'');
          s = (if text \<noteq> [] \<and> (hd text = CHR ''-'' \<or> hd text = CHR ''+'') then tl text else text)
      in if s = ''0'' then Some 0
         else if s = [] then None
         else (case duration_terms 0 s of
                 None \<Rightarrow> None
               | Some d \<Rightarrow>
                   if neg then Some (- d) else if d > 2 ^ 63 - 1 then None else Some d))"

definition int64 :: "int \<Rightarrow> bool" where
  "int64 i \<longleftrightarrow> - (2 ^ 63) \<le> i \<and> i < 2 ^ 63"

lemma int64_numeral [simp]:
  "int64 0" "int64 (numeral k) \<longleftrightarrow> (numeral k :: int) < 9223372036854775808"
  by (auto simp: int64_def intro: order_trans [of _ 0])

lemma duration_terms_range:
  "duration_terms d s = Some r \<Longrightarrow> 0 \<le> d \<Longrightarrow> d \<le> 2 ^ 63 \<Longrightarrow> 0 \<le> r \<and> r \<le> 2 ^ 63"
proof (induction d s rule: duration_terms.induct)
  case (1 d s)
  show ?case
  proof (cases "s = []")
    case True
    with 1 show ?thesis by (simp add: duration_terms.simps)
  next
    case False
    with 1 obtain v r' where v: "duration_term s = Some (v, r')"
      by (auto simp: duration_terms.simps [of d s] split: option.splits)
    with False 1 show ?thesis
      by (auto simp: duration_terms.simps [of d s] Let_def split: if_splits)
  qed
qed

lemma ParseDuration_range: "ParseDuration s = Some d \<Longrightarrow> int64 d"
  by (auto simp: ParseDuration_def int64_def Let_def dest!: duration_terms_range
      split: if_splits option.splits)

lemma atoi_int64: "atoi s = Some i \<Longrightarrow> int64 i"
  using atoi_range by (simp add: int64_def)

section \<open>The text of a duration\<close>

text \<open>The digits of a fraction of \<open>prec\<close> places without trailing zeros, and the integer
  part.\<close>

fun frac_text :: "nat \<Rightarrow> int \<Rightarrow> string \<Rightarrow> string \<times> int" where
  "frac_text 0 v acc = (if acc = [] then [] else CHR ''.'' # acc, v)"
| "frac_text (Suc n) v acc =
     frac_text n (v div 10)
       (if acc = [] \<and> v mod 10 = 0 then [] else digit_char (nat (v mod 10)) # acc)"

definition Duration_String :: "int \<Rightarrow> string" where
  "Duration_String d =
     (let u = \<bar>d\<bar>;
          small = (\<lambda>prec unit. let (fr, i) = frac_text prec u [] in int_text i @ fr @ unit);
          body =
            (if u = 0 then ''0s''
             else if u < 1000 then small 0 ''ns''
             else if u < millisecond then small 3 [CHR 0xC2, CHR 0xB5, CHR ''s'']
             else if u < second then small 6 ''ms''
             else
               let (fr, secs) = frac_text 9 u [];
                   mins = secs div 60; hours = mins div 60
               in (if hours > 0 then int_text hours @ ''h'' else []) @
                  (if mins > 0 then int_text (mins mod 60) @ ''m'' else []) @
                  int_text (secs mod 60) @ fr @ ''s'')
      in if d < 0 then CHR ''-'' # body else body)"

end
