(* ===== verification/Llm_Client.thy ===== *)
theory Llm_Client
  imports App_Config Reference_Backend
begin

text \<open>
  \<^verbatim>\<open>internal/llm/client.go\<close>: the client interface, the client that talks to an
  OpenAI-compatible service, and the disabled one. What the worker relies on is the locale
  \<open>llm_contract\<close>.
\<close>

section \<open>Trimming\<close>

text \<open>
  \<^verbatim>\<open>strings.TrimSpace\<close> on UTF-8 text: the encodings of the runes that Unicode calls
  white space are removed at both ends. An encoding at an end of the text is decoded as
  that rune whatever stands next to it.
\<close>

definition space_runes :: "string list" where
  "space_runes =
     [[CHR 0x09], [CHR 0x0A], [CHR 0x0B], [CHR 0x0C], [CHR 0x0D], [CHR 0x20],
      [CHR 0xC2, CHR 0x85], [CHR 0xC2, CHR 0xA0], [CHR 0xE1, CHR 0x9A, CHR 0x80]] @
     map (\<lambda>c. [CHR 0xE2, CHR 0x80, c])
       [CHR 0x80, CHR 0x81, CHR 0x82, CHR 0x83, CHR 0x84, CHR 0x85, CHR 0x86, CHR 0x87,
        CHR 0x88, CHR 0x89, CHR 0x8A, CHR 0xA8, CHR 0xA9, CHR 0xAF] @
     [[CHR 0xE2, CHR 0x81, CHR 0x9F], [CHR 0xE3, CHR 0x80, CHR 0x80]]"

lemma find_SomeD: "find P xs = Some x \<Longrightarrow> x \<in> set xs \<and> P x"
  by (induction xs) (auto split: if_splits)

function strip_prefixes :: "string list \<Rightarrow> string \<Rightarrow> string" where
  "strip_prefixes ps s =
     (case find (\<lambda>p. p \<noteq> [] \<and> take (length p) s = p) ps of
        None \<Rightarrow> s
      | Some p \<Rightarrow> strip_prefixes ps (drop (length p) s))"
  by pat_completeness auto
termination
proof (relation "measure (\<lambda>(ps, s). length s)", simp)
  fix ps :: "string list" and s p
  assume "find (\<lambda>p. p \<noteq> [] \<and> take (length p) s = p) ps = Some p"
  then have "p \<noteq> []" "take (length p) s = p" by (auto dest: find_SomeD)
  then have "s \<noteq> []" "0 < length p" by auto
  then show "((ps, drop (length p) s), (ps, s)) \<in> measure (\<lambda>(ps, s). length s)" by simp
qed

declare strip_prefixes.simps [simp del]

definition TrimSpace :: "string \<Rightarrow> string" where
  "TrimSpace s =
     rev (strip_prefixes (map rev space_runes) (rev (strip_prefixes space_runes s)))"

definition TrimRight_slash :: "string \<Rightarrow> string" where
  "TrimRight_slash s = rev (dropWhile (\<lambda>c. c = CHR ''/'') (rev s))"

lemma strip_prefixes_none:
  "p \<in> set ps \<Longrightarrow> p \<noteq> [] \<Longrightarrow> take (length p) (strip_prefixes ps s) \<noteq> p"
proof (induction ps s rule: strip_prefixes.induct)
  case (1 ps s)
  show ?case
  proof (cases "find (\<lambda>p. p \<noteq> [] \<and> take (length p) s = p) ps")
    case None
    then show ?thesis
      using "1.prems" by (subst strip_prefixes.simps, simp only: option.case) (auto simp: find_None_iff)
  next
    case (Some q)
    then show ?thesis using 1 by (subst strip_prefixes.simps) simp
  qed
qed

lemma strip_prefixes_split: "\<exists>xs. set xs \<subseteq> set ps \<and> s = concat xs @ strip_prefixes ps s"
proof (induction ps s rule: strip_prefixes.induct)
  case (1 ps s)
  show ?case
  proof (cases "find (\<lambda>p. p \<noteq> [] \<and> take (length p) s = p) ps")
    case None
    then show ?thesis by (subst strip_prefixes.simps) (simp add: exI [of _ "[]"])
  next
    case (Some q)
    then have "strip_prefixes ps s = strip_prefixes ps (drop (length q) s)"
      by (subst strip_prefixes.simps) simp
    with 1 [OF Some] obtain xs
      where "set xs \<subseteq> set ps" "drop (length q) s = concat xs @ strip_prefixes ps s" by auto
    moreover from Some have "q \<in> set ps" "s = q @ drop (length q) s"
      by (auto dest!: find_SomeD) (metis append_take_drop_id)
    ultimately show ?thesis by (intro exI [of _ "q # xs"]) simp
  qed
qed

lemma TrimSpace_ends:
  assumes "p \<in> set space_runes" "p \<noteq> []"
  shows "TrimSpace s \<noteq> p @ r" "TrimSpace s \<noteq> r @ p"
proof -
  define l where "l = strip_prefixes space_runes s"
  have "take (length p) l \<noteq> p" unfolding l_def using assms by (rule strip_prefixes_none)
  moreover obtain xs where "rev l = concat xs @ rev (TrimSpace s)"
    using strip_prefixes_split [of "map rev space_runes" "rev l"] by (auto simp: TrimSpace_def l_def)
  then have "l = TrimSpace s @ rev (concat xs)" by (metis rev_append rev_rev_ident)
  ultimately show "TrimSpace s \<noteq> p @ r" by auto
  have "take (length (rev p)) (rev (TrimSpace s)) \<noteq> rev p"
    unfolding TrimSpace_def rev_rev_ident
    by (rule strip_prefixes_none) (use assms in auto)
  then show "TrimSpace s \<noteq> r @ p" by auto
qed

section \<open>The interface\<close>

record llm_client =
  lc_Complete :: "string \<Rightarrow> (goerror + string) prog"
  lc_Summarize :: "string \<Rightarrow> (goerror + string) prog"
  lc_Model :: string

section \<open>The client\<close>

record client =
  c_model :: string
  c_temperature :: float64
  c_maxTokens :: int

definition newline :: string where "newline = [CHR 0x0A]"

definition summarizerPrompt :: "string \<Rightarrow> string" where
  "summarizerPrompt text =
     ''You are a concise technical summarizer.'' @ newline @
     ''Summarize the user's text in at most three sentences.'' @ newline @
     ''Preserve technical specifics (identifiers, numbers, names).'' @ newline @
     ''Respond with the summary only - no preamble, no markdown fences.'' @ newline @
     newline @
     ''Text:'' @ newline @
     text"

text \<open>The reply of the model is the contents of its choices.\<close>

definition client_Complete :: "client \<Rightarrow> string \<Rightarrow> (goerror + string) prog" where
  "client_Complete c prompt =
     Generate \<lparr>g_prompt = prompt, g_temperature = c_temperature c, g_max_tokens = c_maxTokens c\<rparr>
       (\<lambda>resp. case resp of
          Inl err \<Rightarrow> Return (Inl (errorf ''llm: generate'' err))
        | Inr choices \<Rightarrow>
            (case choices of
               [] \<Rightarrow> Return (Inl (Plain (''llm: empty response from '' @ c_model c)))
             | content # _ \<Rightarrow> Return (Inr (TrimSpace content))))"

definition client_Summarize :: "client \<Rightarrow> string \<Rightarrow> (goerror + string) prog" where
  "client_Summarize c text =
     (if TrimSpace text = '''' then Return (Inr '''')
      else client_Complete c (summarizerPrompt text))"

definition client_iface :: "client \<Rightarrow> llm_client" where
  "client_iface c =
     \<lparr>lc_Complete = client_Complete c, lc_Summarize = client_Summarize c, lc_Model = c_model c\<rparr>"

text \<open>
  The SDK's constructor is a parameter: the error it reports, if any, for a token, a model
  and a base URL.
\<close>

definition llm_New ::
  "(string \<Rightarrow> string \<Rightarrow> string \<Rightarrow> goerror option) \<Rightarrow> llm_config \<Rightarrow> goerror + llm_client" where
  "llm_New openai_New cfg =
     (if llm_APIKey cfg = '''' then Inl (Plain ''llm: API key is empty'')
      else case openai_New (llm_APIKey cfg) (llm_Model cfg) (TrimRight_slash (llm_BaseURL cfg)) of
             Some err \<Rightarrow> Inl (errorf (''llm: init '' @ llm_Provider cfg @ '' client'') err)
           | None \<Rightarrow>
               Inr (client_iface
                 \<lparr>c_model = llm_Model cfg, c_temperature = llm_Temperature cfg,
                  c_maxTokens = llm_MaxTokens cfg\<rparr>))"

section \<open>The disabled client\<close>

definition disabled_Complete :: "string \<Rightarrow> (goerror + string) prog" where
  "disabled_Complete prompt = Return (Inl ErrDisabled)"

definition disabled_Summarize :: "string \<Rightarrow> (goerror + string) prog" where
  "disabled_Summarize text = Return (Inr text)"

definition Disabled :: "string \<Rightarrow> llm_client" where
  "Disabled model =
     \<lparr>lc_Complete = disabled_Complete, lc_Summarize = disabled_Summarize, lc_Model = model\<rparr>"

lemmas llm_defs [go_defs] =
  client_Complete_def client_Summarize_def disabled_Complete_def disabled_Summarize_def

lemma llm_iface_simps [simp]:
  "lc_Complete (client_iface c) = client_Complete c"
  "lc_Summarize (client_iface c) = client_Summarize c"
  "lc_Complete (Disabled m) = disabled_Complete" "lc_Summarize (Disabled m) = disabled_Summarize"
  "lc_Model (client_iface c) = c_model c" "lc_Model (Disabled m) = m"
  by (simp_all add: client_iface_def Disabled_def)

section \<open>The contract\<close>

text \<open>
  A client only talks to the model, and a summary takes one call at most: this is what
  makes a duplicate delivery the only way to pay twice.
\<close>

fun llm_event :: "event \<Rightarrow> bool" where
  "llm_event (EGenerate _ _) \<longleftrightarrow> True"
| "llm_event _ \<longleftrightarrow> False"

locale llm_contract =
  fixes C :: llm_client
  assumes complete_calls: "only llm_event (lc_Complete C prompt)"
    and summarize_calls: "only llm_event (lc_Summarize C text)"
    and summarize_once: "always (\<lambda>before ev. before = []) [] (lc_Summarize C text)"

interpretation openai: llm_contract "client_iface c" for c
  by unfold_locales (auto simp: llm_defs split: sum.split list.split prod.split)

interpretation disabled: llm_contract "Disabled m" for m
  by unfold_locales (simp_all add: llm_defs)

lemma llm_New_contract: "llm_New mk cfg = Inr C \<Longrightarrow> llm_contract C"
  by (auto simp: llm_New_def openai.llm_contract_axioms split: if_splits option.splits)

text \<open>
  C32: A summary is clean text from one call. When \<^verbatim>\<open>Summarize\<close> of the real client
  returns a summary, either the text was blank, nothing was called and the summary is empty,
  or the model was called exactly once, with the prompt and the client's parameters, and the
  summary is the first choice's content without the white space at its ends: it neither
  starts nor ends with a white-space rune.
\<close>

theorem Summarize_clean:
  assumes "run E (client_Summarize c text) w = (Inr summary, w')"
  shows "(if TrimSpace text = '''' then summary = '''' \<and> w' = w \<and> log E (client_Summarize c text) w = []
          else \<exists>content more.
            log E (client_Summarize c text) w =
              [EGenerate \<lparr>g_prompt = summarizerPrompt text, g_temperature = c_temperature c,
                          g_max_tokens = c_maxTokens c\<rparr> (Inr (content # more))] \<and>
            summary = TrimSpace content) \<and>
         (\<forall>rune \<in> set space_runes. \<forall>rest. summary \<noteq> rune @ rest \<and> summary \<noteq> rest @ rune)"
proof -
  have ne: "[] \<notin> set space_runes" by (simp add: space_runes_def image_iff)
  have "TrimSpace content \<noteq> rune @ rest \<and> TrimSpace content \<noteq> rest @ rune"
    if "rune \<in> set space_runes" for content rune rest
    using that ne TrimSpace_ends by metis
  moreover have "rune \<noteq> []" if "rune \<in> set space_runes" for rune using that ne by metis
  ultimately show ?thesis
    using assms
    by (auto simp: client_Summarize_def client_Complete_def split: prod.splits sum.splits list.splits if_splits)
qed

theorem Summarize_clean_witness:
  "\<exists>w'. run mem_env (client_Summarize \<lparr>c_model = ''m'', c_temperature = 0, c_maxTokens = 64\<rparr> ''text'')
          (mem_empty\<lparr>m_reply := ['' a summary '']\<rparr>) = (Inr ''a summary'', w')"
proof -
  let ?p = "client_Summarize \<lparr>c_model = ''m'', c_temperature = 0, c_maxTokens = 64\<rparr> ''text''"
  let ?w = "mem_empty\<lparr>m_reply := ['' a summary '']\<rparr>"
  have "fst (run mem_env ?p ?w) = Inr ''a summary''" by code_simp
  note r = run_fst [OF this]
  from Summarize_clean [OF r] r show ?thesis by blast
qed


end
