(* ===== verification/Task_Summarizer.thy ===== *)
theory Task_Summarizer
  imports Consumer Dedupe_Guard Llm_Client
begin

text \<open>
  \<^verbatim>\<open>internal/worker/task_summarizer.go\<close>: the handler of task.created messages. Its
  logging is left out. The locale \<open>worker_stack\<close> puts together what it relies on: the
  service over a repository and a publisher, and a client of the language model.
\<close>

section \<open>The handler\<close>

record task_summarizer =
  ts_svc :: task_service
  ts_llm :: llm_client
  ts_dedupe :: "dedupe option"

definition NewTaskSummarizer ::
  "task_service \<Rightarrow> llm_client \<Rightarrow> dedupe option \<Rightarrow> task_summarizer" where
  "NewTaskSummarizer svc llm dd = \<lparr>ts_svc = svc, ts_llm = llm, ts_dedupe = dd\<rparr>"

text \<open>Both failures after the claim end alike: release the marker, reset the task, report.\<close>

definition Summarizer_give_back ::
  "task_summarizer \<Rightarrow> string \<Rightarrow> uuid \<Rightarrow> goerror \<Rightarrow> goerror option prog" where
  "Summarizer_give_back W eventID i err =
     pbind (case ts_dedupe W of None \<Rightarrow> Return () | Some d \<Rightarrow> Dedupe_Release d eventID) (\<lambda>_.
       pbind (TaskService_MarkPending (ts_svc W) i) (\<lambda>rerr. Return (Some err)))"

definition summary_text :: "task_created_payload \<Rightarrow> string" where
  "summary_text p =
     (if pl_Description p \<noteq> '''' then pl_Title p @ newline @ newline @ pl_Description p
      else pl_Title p)"

text \<open>The part after the task has been claimed.\<close>

definition Summarizer_summarize ::
  "lib \<Rightarrow> task_summarizer \<Rightarrow> string \<Rightarrow> task_created_payload \<Rightarrow> goerror option prog" where
  "Summarizer_summarize L W eventID p =
     pbind (lc_Summarize (ts_llm W) (summary_text p)) (\<lambda>r. case r of
       Inl err \<Rightarrow>
         Summarizer_give_back W eventID (pl_TaskID p)
           (errorf (''summarize task '' @ uuid_String (pl_TaskID p)) err)
     | Inr summary \<Rightarrow>
         pbind (TaskService_ApplySummary L (ts_svc W) (pl_TaskID p) summary) (\<lambda>r. case r of
           None \<Rightarrow> Return None
         | Some err \<Rightarrow>
             if errors_Is err ErrNotFound then Return None
             else Summarizer_give_back W eventID (pl_TaskID p)
                    (errorf (''apply summary for '' @ uuid_String (pl_TaskID p)) err)))"

text \<open>The part after the duplicate check.\<close>

definition Summarizer_process ::
  "lib \<Rightarrow> task_summarizer \<Rightarrow> string \<Rightarrow> task_created_payload \<Rightarrow> goerror option prog" where
  "Summarizer_process L W eventID p =
     pbind (TaskService_BeginProcessing (ts_svc W) (pl_TaskID p)) (\<lambda>r. case r of
       Inl err \<Rightarrow>
         if errors_Is err ErrNotFound then Return None
         else Return (Some (errorf (''claim task '' @ uuid_String (pl_TaskID p)) err))
     | Inr claimed \<Rightarrow>
         if \<not> claimed then Return None else Summarizer_summarize L W eventID p)"

definition TaskSummarizer_Handle :: "lib \<Rightarrow> task_summarizer \<Rightarrow> handler" where
  "TaskSummarizer_Handle L W body =
     (case DecodeJSON (unmarshal_envelope L) body of
        Inl err \<Rightarrow> Return None
      | Inr env \<Rightarrow>
          if env_Type env \<noteq> RoutingTaskCreated then Return None
          else pbind (case ts_dedupe W of
                        None \<Rightarrow> Return True
                      | Some d \<Rightarrow> Dedupe_Claim L d (env_ID env)) (\<lambda>first.
            if \<not> first then Return None
            else case DecodeJSON (unmarshal_created L) (payload_bytes env) of
                   Inl err \<Rightarrow> Return None
                 | Inr payload \<Rightarrow> Summarizer_process L W (env_ID env) payload))"

definition TaskSummarizer_Register ::
  "lib \<Rightarrow> task_summarizer \<Rightarrow> broker \<Rightarrow>
     goerror + consumer \<times> broker \<times> (nat \<Rightarrow> run_end prog)" where
  "TaskSummarizer_Register L W b =
     NewConsumer b \<lparr>co_Queue = QueueTaskEvents, co_Prefetch = 0,
                     co_Handler = Some (TaskSummarizer_Handle L W)\<rparr>"

lemma NewTaskSummarizer_simps [simp]:
  "ts_svc (NewTaskSummarizer svc llm dd) = svc" "ts_llm (NewTaskSummarizer svc llm dd) = llm"
  "ts_dedupe (NewTaskSummarizer svc llm dd) = dd"
  by (simp_all add: NewTaskSummarizer_def)

section \<open>What it relies on\<close>

text \<open>Releasing the marker and claiming it again touch only Redis and the clock.\<close>

fun worker_event :: "event \<Rightarrow> bool" where
  "worker_event (ENow _) \<longleftrightarrow> True"
| "worker_event ev \<longleftrightarrow> service_event ev \<or> llm_event ev"

lemma worker_event_service [simp]: "service_event ev \<Longrightarrow> worker_event ev"
  by (cases ev) simp_all

lemma worker_event_llm [simp]: "llm_event ev \<Longrightarrow> worker_event ev"
  by (cases ev) simp_all

lemma worker_not_consumer: "worker_event ev \<Longrightarrow> \<not> consumer_event ev"
  by (cases ev rule: consumer_event.cases) (simp_all add: service_event_def)

lemma dedupe_worker_calls:
  "only worker_event (Dedupe_Claim L d i)" "only worker_event (Dedupe_Release d i)"
  by (auto simp: Dedupe_Claim_def Dedupe_Release_def service_event_def split: sum.split)

text \<open>The row was pending and is completed with a summary that the client returned.\<close>

definition completes ::
  "'w env \<Rightarrow> llm_client \<Rightarrow> task_created_payload \<Rightarrow> table \<Rightarrow> table \<Rightarrow> bool" where
  "completes E C p m m' \<longleftrightarrow>
     (\<exists>t sm w1 w2.
        m (pl_TaskID p) = Some t \<and> Status t = TaskStatusPending \<and>
        run E (lc_Summarize C (summary_text p)) w1 = (Inr sm, w2) \<and>
        m' = m(pl_TaskID p \<mapsto> t\<lparr>Status := TaskStatusCompleted,
               Summary := (if sm = '''' then Summary t else sm)\<rparr>))"

text \<open>
  \<open>claim_won i ev\<close>: the conditional update of task \<open>i\<close> changed a row. A call to the model
  is paid work: \<open>pays_after_claim i\<close> asks that it comes after such a claim and is the first.
\<close>

fun claim_won :: "uuid \<Rightarrow> event \<Rightarrow> bool" where
  "claim_won i (EExec (Updates c as) (Inr n)) \<longleftrightarrow>
     c = CondAnd (IdIs i) (StatusIs TaskStatusPending) \<and>
     as = [SetStatus TaskStatusProcessing] \<and> n = 1"
| "claim_won i ev \<longleftrightarrow> False"

fun pays_after_claim :: "uuid \<Rightarrow> event list \<Rightarrow> event \<Rightarrow> bool" where
  "pays_after_claim i before (EGenerate g r) \<longleftrightarrow>
     list_ex (claim_won i) before \<and> list_all (\<lambda>ev. \<not> llm_event ev) before"
| "pays_after_claim i before ev \<longleftrightarrow> True"

lemma pays_other: "\<not> llm_event ev \<Longrightarrow> pays_after_claim i before ev"
  by (cases ev) simp_all

lemma service_not_llm: "service_event ev \<Longrightarrow> \<not> llm_event ev"
  by (cases ev) (simp_all add: service_event_def)

lemma dedupe_not_llm:
  "only (\<lambda>ev. \<not> llm_event ev) (Dedupe_Claim L d i)"
  "only (\<lambda>ev. \<not> llm_event ev) (Dedupe_Release d i)"
  by (auto simp: Dedupe_Claim_def Dedupe_Release_def split: sum.split)

text \<open>The task.created message in a body: its envelope ID and payload.\<close>

definition message_of :: "lib \<Rightarrow> bytes \<Rightarrow> (string \<times> task_created_payload) option" where
  "message_of L body =
     (case unmarshal_envelope L body of
        Inl _ \<Rightarrow> None
      | Inr env \<Rightarrow>
          if env_Type env = RoutingTaskCreated
          then (case unmarshal_created L (payload_bytes env) of
                  Inl _ \<Rightarrow> None | Inr p \<Rightarrow> Some (env_ID env, p))
          else None)"

locale worker_stack = service_stack R laws P + llm_contract C
  for R :: task_repository and laws :: "'w env \<Rightarrow> 'w view \<Rightarrow> bool"
    and P :: publisher and C :: llm_client
begin

abbreviation worker :: "dedupe option \<Rightarrow> task_summarizer" where
  "worker dd \<equiv> NewTaskSummarizer svc C dd"

lemma give_back_calls: "only worker_event (Summarizer_give_back (worker dd) ev i err)"
  unfolding Summarizer_give_back_def
  by (intro only_pbind)
     (auto intro: dedupe_worker_calls only_mono [OF use_case_calls(2)] split: option.split)

lemma summarize_part_calls: "only worker_event (Summarizer_summarize L (worker dd) ev p)"
  unfolding Summarizer_summarize_def
  by (intro only_pbind)
     (auto intro: give_back_calls only_mono [OF use_case_calls(3)] only_mono [OF summarize_calls]
       split: option.split sum.split)

lemma process_calls: "only worker_event (Summarizer_process L (worker dd) ev p)"
  unfolding Summarizer_process_def
  by (intro only_pbind)
     (auto intro: summarize_part_calls only_mono [OF use_case_calls(1)] split: sum.split)

lemma Handle_calls: "only worker_event (TaskSummarizer_Handle L (worker dd) body)"
  unfolding TaskSummarizer_Handle_def
  by (auto intro!: only_pbind dedupe_worker_calls process_calls split: option.split sum.split)

section \<open>What one delivery does to the task\<close>

lemma llm_store:
  assumes "laws E V" "run E (lc_Summarize C text) w = (r, w')"
  shows "store V w' = store V w"
  by (rule quiet_store [OF assms(1) only_mono [OF summarize_calls] assms(2)])
     (auto elim: llm_event.elims)

lemma dedupe_store:
  assumes "laws E V"
  shows "run E (Dedupe_Claim L d i) w = (b, w') \<Longrightarrow> store V w' = store V w"
    and "run E (Dedupe_Release d i) w = (u, w') \<Longrightarrow> store V w' = store V w"
  using quiet_store [OF assms only_mono [OF Claim_no_db]]
    quiet_store [OF assms only_mono [OF Release_no_db]] by blast+

text \<open>A delivery that reports no error left the tasks alone or completed its pending task.\<close>

lemma summarize_store:
  assumes "laws E V" "run E (Summarizer_summarize L (worker dd) ev p) w = (None, w')"
    and t: "store V w (pl_TaskID p) = Some t"
  shows "\<exists>sm w1 w2.
           run E (lc_Summarize C (summary_text p)) w1 = (Inr sm, w2) \<and>
           store V w' = (store V w)(pl_TaskID p \<mapsto> t\<lparr>Status := TaskStatusCompleted,
             Summary := (if sm = '''' then Summary t else sm)\<rparr>)"
proof -
  let ?i = "pl_TaskID p"
  obtain x u where x: "run E (lc_Summarize C (summary_text p)) w = (x, u)" by fastforce
  have u: "store V u = store V w" by (rule llm_store [OF assms(1) x])
  with assms(2) x obtain sm where sm: "x = Inr sm"
    by (cases x) (auto simp: Summarizer_summarize_def Summarizer_give_back_def split: prod.splits)
  obtain y v where y: "run E (TaskService_ApplySummary L svc ?i sm) u = (y, v)" by fastforce
  have "y = None"
  proof (cases y)
    case (Some err)
    have "\<not> errors_Is err ErrNotFound" using ApplySummary_any [OF assms(1) y [unfolded Some]] u t by auto
    with assms(2) x sm y Some show ?thesis
      by (auto simp: Summarizer_summarize_def Summarizer_give_back_def split: prod.splits)
  qed
  with assms(2) x sm y have "w' = v" by (simp add: Summarizer_summarize_def)
  with ApplySummary_store [OF assms(1) y [unfolded \<open>y = None\<close>]] u t x sm show ?thesis by auto
qed

lemma process_store:
  assumes "laws E V" "run E (Summarizer_process L (worker dd) ev p) w = (None, w')"
  shows "store V w' = store V w \<or> completes E C p (store V w) (store V w')"
proof -
  let ?i = "pl_TaskID p"
  obtain x u where x: "run E (TaskService_BeginProcessing svc ?i) w = (x, u)" by fastforce
  show ?thesis
  proof (cases x)
    case (Inl e)
    have "\<not> errors_Is e ErrNotFound" by (rule BeginProcessing_error [OF assms(1) x [unfolded Inl]])
    with assms(2) x Inl show ?thesis by (simp add: Summarizer_process_def)
  next
    case (Inr b)
    note cl = BeginProcessing_claims [OF assms(1) x [unfolded Inr]]
    show ?thesis
    proof (cases b)
      case False
      then show ?thesis
        using cl assms(2) x Inr
        by (auto simp: Summarizer_process_def claim_abs_def split: option.splits if_splits)
    next
      case True
      let ?t = "\<lambda>t. t\<lparr>Status := TaskStatusProcessing\<rparr>"
      from cl True obtain t where t: "store V w ?i = Some t" "Status t = TaskStatusPending"
        and u: "store V u = (store V w)(?i \<mapsto> ?t t)"
        by (auto simp: claim_abs_def split: option.splits if_splits)
      have s: "run E (Summarizer_summarize L (worker dd) ev p) u = (None, w')"
        using assms(2) x Inr True by (simp add: Summarizer_process_def)
      from summarize_store [OF assms(1) s, of "?t t"] u
      obtain sm w1 w2 where "run E (lc_Summarize C (summary_text p)) w1 = (Inr sm, w2)"
        and "store V w' = (store V w)(?i \<mapsto> t\<lparr>Status := TaskStatusCompleted,
               Summary := (if sm = '''' then Summary t else sm)\<rparr>)" by auto
      with t show ?thesis unfolding completes_def by blast
    qed
  qed
qed

text \<open>
  The handler gives up before the claim with no error and no call of the model, or processes
  the message.
\<close>

lemma Handle_store:
  assumes "laws E V" "run E (TaskSummarizer_Handle L (worker dd) body) w = (r, w')"
  shows "store V w' = store V w \<and> r = None \<or>
         (\<exists>ev p w0 h. message_of L body = Some (ev, p) \<and> store V w0 = store V w \<and>
            run E (Summarizer_process L (worker dd) ev p) w0 = (r, w') \<and>
            log E (TaskSummarizer_Handle L (worker dd) body) w =
              h @ log E (Summarizer_process L (worker dd) ev p) w0 \<and>
            list_all (\<lambda>ev. \<not> llm_event ev) h)"
proof (cases "unmarshal_envelope L body")
  case (Inl e)
  with assms(2) show ?thesis by (simp add: TaskSummarizer_Handle_def DecodeJSON_def)
next
  case (Inr env)
  let ?c = "case dd of None \<Rightarrow> Return True | Some d \<Rightarrow> Dedupe_Claim L d (env_ID env)"
  obtain b u where b: "run E ?c w = (b, u)" by (cases "run E ?c w")
  have u: "store V u = store V w" using b dedupe_store(1) [OF assms(1)] by (cases dd) auto
  have "only (\<lambda>ev. \<not> llm_event ev) ?c" by (auto intro: dedupe_not_llm split: option.split)
  then have q: "list_all (\<lambda>ev. \<not> llm_event ev) (log E ?c w)"
    by (auto simp: list_all_iff dest: only_log)
  show ?thesis
  proof (cases "\<exists>p. message_of L body = Some (env_ID env, p)")
    case True
    then obtain p where p: "message_of L body = Some (env_ID env, p)" by blast
    then have m: "env_Type env = RoutingTaskCreated" "unmarshal_created L (payload_bytes env) = Inr p"
      using Inr by (auto simp: message_of_def split: if_splits sum.splits)
    show ?thesis
    proof (cases b)
      case True
      with assms(2) Inr b u q p m show ?thesis
        by (intro disjI2 exI [of _ "env_ID env"] exI [of _ p] exI [of _ u] exI [of _ "log E ?c w"])
           (simp add: TaskSummarizer_Handle_def DecodeJSON_def)
    next
      case False
      with assms(2) Inr b u m show ?thesis by (simp add: TaskSummarizer_Handle_def DecodeJSON_def)
    qed
  next
    case False
    with assms(2) Inr b u show ?thesis
      by (auto simp: TaskSummarizer_Handle_def DecodeJSON_def message_of_def split: if_splits sum.splits)
  qed
qed

lemma use_case_not_llm:
  "only (\<lambda>ev. \<not> llm_event ev) (TaskService_MarkPending svc i)"
  "only (\<lambda>ev. \<not> llm_event ev) (TaskService_ApplySummary L svc i sm)"
  by (rule only_mono [OF use_case_calls(2)], erule service_not_llm)
     (rule only_mono [OF use_case_calls(3)], erule service_not_llm)

lemma summarize_pays:
  assumes "list_ex (claim_won i) h" "list_all (\<lambda>ev. \<not> llm_event ev) h"
  shows "always (pays_after_claim i) h (Summarizer_summarize L (worker dd) ev p)"
  unfolding Summarizer_summarize_def
proof (rule always_pbind_quiet)
  have "always (pays_after_claim i) (h @ []) (lc_Summarize C (summary_text p))"
  proof (rule always_shift [OF summarize_once])
    fix h' :: "event list" and e
    assume "h' = []"
    then show "pays_after_claim i (h @ h') e" using assms by (cases e) simp_all
  qed
  then show "always (pays_after_claim i) h (lc_Summarize (ts_llm (worker dd)) (summary_text p))"
    by simp
  have gb: "only (\<lambda>ev. \<not> llm_event ev) (Summarizer_give_back (worker dd) ev j err)" for j err
    unfolding Summarizer_give_back_def
    by (intro only_pbind)
       (auto intro: dedupe_not_llm use_case_not_llm split: option.split)
  show "only (\<lambda>ev. \<not> llm_event ev) (case a of
       Inl err \<Rightarrow> Summarizer_give_back (worker dd) ev (pl_TaskID p)
         (errorf (''summarize task '' @ uuid_String (pl_TaskID p)) err)
     | Inr summary \<Rightarrow>
         pbind (TaskService_ApplySummary L (ts_svc (worker dd)) (pl_TaskID p) summary) (\<lambda>r. case r of
           None \<Rightarrow> Return None
         | Some err \<Rightarrow>
             if errors_Is err ErrNotFound then Return None
             else Summarizer_give_back (worker dd) ev (pl_TaskID p)
                    (errorf (''apply summary for '' @ uuid_String (pl_TaskID p)) err)))" for a
    by (cases a)
       (auto intro!: gb only_pbind use_case_not_llm split: option.split)
qed (simp add: pays_other)

lemma process_pays:
  assumes "R = NewTaskRepository" "list_all (\<lambda>ev. \<not> llm_event ev) h"
  shows "always (pays_after_claim (pl_TaskID p)) h (Summarizer_process L (worker dd) ev p)"
proof -
  have "always (pays_after_claim (pl_TaskID p)) (h @ [EExec (Updates (CondAnd (IdIs (pl_TaskID p))
      (StatusIs TaskStatusPending)) [SetStatus TaskStatusProcessing]) (Inr 1), ERedis c e])
      (Summarizer_summarize L (worker dd) ev p)" for c e
    by (rule summarize_pays) (use assms(2) in simp_all)
  then show ?thesis
    unfolding Summarizer_process_def TaskService_BeginProcessing_def
    by (simp add: assms(1) taskRepository_MarkProcessing_def split: sum.split)
qed

text \<open>What a delivery pays for.\<close>

lemma Handle_pays:
  assumes "R = NewTaskRepository"
  shows "case message_of L body of
     None \<Rightarrow> only (\<lambda>ev. \<not> llm_event ev \<and> \<not> db_event ev) (TaskSummarizer_Handle L (worker dd) body)
   | Some (ev, p) \<Rightarrow>
       always (pays_after_claim (pl_TaskID p)) [] (TaskSummarizer_Handle L (worker dd) body)"
proof (cases "unmarshal_envelope L body")
  case (Inl e)
  then show ?thesis by (simp add: TaskSummarizer_Handle_def DecodeJSON_def message_of_def)
next
  case (Inr env)
  let ?c = "case dd of None \<Rightarrow> Return True | Some d \<Rightarrow> Dedupe_Claim L d (env_ID env)"
  have c: "only (\<lambda>ev. \<not> llm_event ev \<and> \<not> db_event ev) ?c"
    by (auto simp: Dedupe_Claim_def split: option.split sum.split)
  then have c': "only (\<lambda>ev. \<not> llm_event ev) ?c" by (rule only_mono) simp
  have pay: "always (pays_after_claim (pl_TaskID p)) []
      (pbind ?c (\<lambda>first. if \<not> first then Return None
         else Summarizer_process L (worker dd) (env_ID env) p))" for p
    by (rule always_pbind_after [OF c' pays_other])
       (auto intro: process_pays [OF assms])
  show ?thesis
  proof (cases "env_Type env = RoutingTaskCreated")
    case True
    show ?thesis
    proof (cases "unmarshal_created L (payload_bytes env)")
      case (Inl e)
      with c Inr True show ?thesis
        by (auto simp: TaskSummarizer_Handle_def DecodeJSON_def message_of_def intro!: only_pbind)
    next
      case p: (Inr p)
      with pay [of p] Inr True show ?thesis
        by (simp add: TaskSummarizer_Handle_def DecodeJSON_def message_of_def cong: if_cong)
    qed
  qed (use Inr in \<open>simp add: TaskSummarizer_Handle_def DecodeJSON_def message_of_def\<close>)
qed

end

lemma only_list_ex:
  assumes "only (\<lambda>ev. \<not> Q ev) p"
  shows "\<not> list_ex Q (log E p w)"
proof
  assume "list_ex Q (log E p w)"
  then obtain ev where ev: "ev \<in> set (log E p w)" "Q ev" by (auto simp: list_ex_iff)
  from only_log [OF assms ev(1)] ev(2) show False by simp
qed

context worker_stack
begin

text \<open>Redis seen by the handler: the use cases only drop the task's own cache entry.\<close>

lemma repo_kv:
  assumes "redis_durable E V" "only store_event q" "run E q w = (r, w')"
  shows "kv V w' = kv V w"
  by (rule kv_frame_durable [OF assms(1) only_mono [OF assms(2)] assms(3)])
     (erule store_event_kinds)

lemma MarkPending_kv:
  assumes "redis_durable E V" "run E (TaskService_MarkPending svc i) w = (r, w')" "k \<noteq> task_key i"
  shows "kv V w' k = kv V w k"
proof -
  obtain x u where u: "run E (repo_UpdateStatus R i TaskStatusPending '''') w = (x, u)" by fastforce
  have "kv V u = kv V w" by (rule repo_kv [OF assms(1) calls(4) u])
  with u assms(2,3) del_durable [OF assms(1)] show ?thesis
    by (cases x) (fastforce simp: TaskService_MarkPending_def split: prod.splits)+
qed

text \<open>Handing a task back leaves no marker behind.\<close>

lemma give_back_releases:
  assumes "redis_durable E V" "ev \<noteq> ''''"
    and "run E (Summarizer_give_back (worker (Some d)) ev i err) w = (r, w')"
    and "list_all (\<lambda>ev. \<not> failed ev) (log E (Summarizer_give_back (worker (Some d)) ev i err) w)"
  shows "kv V w' (dedupe_key ev) = None"
proof -
  obtain u where u: "run E (Dedupe_Release d ev) w = ((), u)"    by (metis old.unit.exhaust surj_pair)
  then obtain y where y: "run E (TaskService_MarkPending svc i) u = (y, w')"
    using assms(3) by (auto simp: Summarizer_give_back_def split: prod.splits)
  have "kv V u (dedupe_key ev) = None"
    by (rule Release_durable [OF assms(1,2) u]) (use assms(4) u in \<open>simp add: Summarizer_give_back_def\<close>)
  with MarkPending_kv [OF assms(1) y] show ?thesis by simp
qed

lemma summarize_error:
  assumes "run E (Summarizer_summarize L (worker dd) ev p) w = (Some e, w')"
  shows "\<exists>w0 err. run E (Summarizer_give_back (worker dd) ev (pl_TaskID p) err) w0 = (Some e, w') \<and>
           set (log E (Summarizer_give_back (worker dd) ev (pl_TaskID p) err) w0) \<subseteq>
             set (log E (Summarizer_summarize L (worker dd) ev p) w)"
proof -
  obtain x u where x: "run E (lc_Summarize C (summary_text p)) w = (x, u)" by fastforce
  show ?thesis
  proof (cases x)
    case (Inl err)
    with assms x show ?thesis
      by (intro exI [of _ u] exI [of _ "errorf (''summarize task '' @ uuid_String (pl_TaskID p)) err"])
         (simp add: Summarizer_summarize_def)
  next
    case (Inr sm)
    obtain y v where y: "run E (TaskService_ApplySummary L svc (pl_TaskID p) sm) u = (y, v)"
      by fastforce
    with assms x Inr obtain err where err: "y = Some err" "\<not> errors_Is err ErrNotFound"
      by (cases y) (auto simp: Summarizer_summarize_def split: if_splits)
    with assms x Inr y show ?thesis
      by (intro exI [of _ v] exI [of _ "errorf (''apply summary for '' @ uuid_String (pl_TaskID p)) err"])
         (auto simp: Summarizer_summarize_def)
  qed
qed

lemma BeginProcessing_no_llm:
  "run E (TaskService_BeginProcessing svc i) w = (x, u) \<Longrightarrow>
   \<not> list_ex llm_event (log E (TaskService_BeginProcessing svc i) w)"
  by (rule only_list_ex, rule only_mono [OF use_case_calls(1)], erule service_not_llm)

lemma process_error_after_llm:
  assumes "run E (Summarizer_process L (worker dd) ev p) w = (Some e, w')"
    and "list_ex llm_event (log E (Summarizer_process L (worker dd) ev p) w)"
  shows "\<exists>u. run E (Summarizer_summarize L (worker dd) ev p) u = (Some e, w') \<and>
           set (log E (Summarizer_summarize L (worker dd) ev p) u) \<subseteq>
             set (log E (Summarizer_process L (worker dd) ev p) w)"
proof -
  obtain x u where x: "run E (TaskService_BeginProcessing svc (pl_TaskID p)) w = (x, u)" by fastforce
  with assms BeginProcessing_no_llm [OF x] have "x = Inr True"
    by (auto simp: Summarizer_process_def split: sum.splits if_splits)
  with assms x show ?thesis
    by (intro exI [of _ u]) (auto simp: Summarizer_process_def)
qed

text \<open>The handler as the duplicate check followed by the rest.\<close>

lemma Handle_parts:
  assumes "message_of L body = Some (ev, p)"
  shows "TaskSummarizer_Handle L (worker (Some d)) body =
    pbind (Dedupe_Claim L d ev) (\<lambda>first.
      if \<not> first then Return None else Summarizer_process L (worker (Some d)) ev p)"
proof -
  obtain env where "unmarshal_envelope L body = Inr env" "env_Type env = RoutingTaskCreated"
    "unmarshal_created L (payload_bytes env) = Inr p" "ev = env_ID env"
    using assms by (auto simp: message_of_def split: sum.splits if_splits)
  then show ?thesis by (simp add: TaskSummarizer_Handle_def DecodeJSON_def cong: if_cong)
qed

lemma Handle_failure_releases:
  assumes "redis_durable E V" "message_of L body = Some (ev, p)" "ev \<noteq> ''''"
    and "run E (TaskSummarizer_Handle L (worker (Some d)) body) w = (Some e, w')"
    and "list_ex llm_event (log E (TaskSummarizer_Handle L (worker (Some d)) body) w)"
    and "list_all (\<lambda>ev. \<not> failed ev) (log E (TaskSummarizer_Handle L (worker (Some d)) body) w)"
  shows "kv V w' (dedupe_key ev) = None"
proof -
  obtain b u where b: "run E (Dedupe_Claim L d ev) w = (b, u)" by fastforce
  have "\<not> list_ex llm_event (log E (Dedupe_Claim L d ev) w)"
    by (rule only_list_ex [OF dedupe_not_llm(1)])
  then have p: "run E (Summarizer_process L (worker (Some d)) ev p) u = (Some e, w')"
      "list_ex llm_event (log E (Summarizer_process L (worker (Some d)) ev p) u)"
      "list_all (\<lambda>ev. \<not> failed ev) (log E (Summarizer_process L (worker (Some d)) ev p) u)"
    using assms(4-6) b by (auto simp: Handle_parts [OF assms(2)] split: if_splits)
  obtain v where v: "run E (Summarizer_summarize L (worker (Some d)) ev p) v = (Some e, w')"
    "set (log E (Summarizer_summarize L (worker (Some d)) ev p) v) \<subseteq>
       set (log E (Summarizer_process L (worker (Some d)) ev p) u)"
    using process_error_after_llm [OF p(1,2)] by auto
  obtain w0 err where
    g: "run E (Summarizer_give_back (worker (Some d)) ev (pl_TaskID p) err) w0 = (Some e, w')"
    and "set (log E (Summarizer_give_back (worker (Some d)) ev (pl_TaskID p) err) w0) \<subseteq>
        set (log E (Summarizer_process L (worker (Some d)) ev p) u)"
    using summarize_error [OF v(1)] v(2) by auto
  then have "list_all (\<lambda>ev. \<not> failed ev)
      (log E (Summarizer_give_back (worker (Some d)) ev (pl_TaskID p) err) w0)"
    using p(3) by (auto simp: list_all_iff)
  with give_back_releases [OF assms(1,3) g] show ?thesis by simp
qed

text \<open>An error before the model was reached leaves the marker in place.\<close>

lemma Handle_claim_error_keeps_marker:
  assumes "redis_durable E V" "message_of L body = Some (ev, p)" "ev \<noteq> ''''"
    and "run E (TaskSummarizer_Handle L (worker (Some d)) body) w = (Some e, w')"
    and "list_all (\<lambda>ev. \<not> llm_event ev \<and> \<not> failed ev)
           (log E (TaskSummarizer_Handle L (worker (Some d)) body) w)"
    and calls_llm: "\<And>w. list_ex llm_event (log E (lc_Summarize C (summary_text p)) w)"
  shows "kv V w' (dedupe_key ev) \<noteq> None"
proof -
  obtain b u where b: "run E (Dedupe_Claim L d ev) w = (b, u)" by fastforce
  then have mark: "kv V u (dedupe_key ev) \<noteq> None"
    using Claim_durable [OF assms(1,3) b] assms(5)
    by (auto simp: Handle_parts [OF assms(2)] list_all_iff)
  obtain x v where x: "run E (TaskService_BeginProcessing svc (pl_TaskID p)) u = (x, v)" by fastforce
  have p: "run E (Summarizer_process L (worker (Some d)) ev p) u = (Some e, w')"
      "list_all (\<lambda>ev. \<not> llm_event ev) (log E (Summarizer_process L (worker (Some d)) ev p) u)"
    using assms(4,5) b by (auto simp: Handle_parts [OF assms(2)] list_all_iff split: if_splits)
  obtain err where "x = Inl err"
  proof (cases x)
    case (Inr claimed)
    with p x have "claimed" by (cases claimed) (simp_all add: Summarizer_process_def)
    with p(2) x Inr have "list_all (\<lambda>ev. \<not> llm_event ev) (log E (lc_Summarize C (summary_text p)) v)"
      by (simp add: Summarizer_process_def Summarizer_summarize_def split: prod.splits)
    with calls_llm [of v] show ?thesis by (auto simp: list_all_iff list_ex_iff)
  qed
  then have "run E (repo_MarkProcessing R (pl_TaskID p)) u = (Inl err, w')"
    using x p(1)
    by (auto simp: TaskService_BeginProcessing_def Summarizer_process_def
        split: prod.splits sum.splits if_splits)
  from repo_kv [OF assms(1) calls(3) this] mark show ?thesis by simp
qed

text \<open>A marked message is acknowledged without any database call.\<close>

lemma Handle_marked_dropped:
  assumes "redis_durable E V" "message_of L body = Some (ev, p)" "ev \<noteq> ''''"
    and "kv V w (dedupe_key ev) \<noteq> None"
    and "run E (TaskSummarizer_Handle L (worker (Some d)) body) w = (r, w')"
    and "list_all (\<lambda>ev. \<not> failed ev) (log E (TaskSummarizer_Handle L (worker (Some d)) body) w)"
  shows "r = None \<and> w' = snd (run E (Dedupe_Claim L d ev) w) \<and>
         log E (TaskSummarizer_Handle L (worker (Some d)) body) w = log E (Dedupe_Claim L d ev) w"
proof -
  obtain b u where b: "run E (Dedupe_Claim L d ev) w = (b, u)" by fastforce
  have "list_all (\<lambda>ev. \<not> failed ev) (log E (Dedupe_Claim L d ev) w)"
    using assms(6) b by (simp add: Handle_parts [OF assms(2)] split: prod.splits)
  from Claim_durable [OF assms(1,3) b this] assms(4) have "\<not> b" by simp
  with b assms(5) show ?thesis by (simp add: Handle_parts [OF assms(2)])
qed

end

section \<open>The worker the program builds\<close>

interpretation paid_worker:
  worker_stack NewTaskRepository gorm_laws "Broker_Publish b" "client_iface c" for b c
  by unfold_locales

interpretation free_worker:
  worker_stack NewTaskRepository gorm_laws "Broker_Publish b" "Disabled m" for b m
  by unfold_locales

abbreviation production_service :: "broker \<Rightarrow> task_service" where
  "production_service b \<equiv> NewTaskService NewTaskRepository (Broker_Publish b)"

abbreviation production_worker :: "broker \<Rightarrow> client \<Rightarrow> dedupe option \<Rightarrow> task_summarizer" where
  "production_worker b c dd \<equiv> NewTaskSummarizer (production_service b) (client_iface c) dd"

definition worker_consumer :: "lib \<Rightarrow> task_summarizer \<Rightarrow> int \<Rightarrow> consumer" where
  "worker_consumer L W prefetch =
     \<lparr>cn_queue = QueueTaskEvents, cn_handler = TaskSummarizer_Handle L W, cn_prefetch = prefetch,
      cn_stopped = False\<rparr>"

lemma worker_consumer_simps [simp]:
  "cn_handler (worker_consumer L W n) = TaskSummarizer_Handle L W"
  "cn_queue (worker_consumer L W n) = QueueTaskEvents"
  by (simp_all add: worker_consumer_def)

abbreviation production_consumer ::
  "lib \<Rightarrow> broker \<Rightarrow> client \<Rightarrow> dedupe option \<Rightarrow> int \<Rightarrow> consumer" where
  "production_consumer L b c dd n \<equiv> worker_consumer L (production_worker b c dd) n"

lemma Register_consumer:
  "TaskSummarizer_Register L W b =
     Inr (worker_consumer L W (b_prefetch b),
          b\<lparr>b_consumers := b_consumers b @ [worker_consumer L W (b_prefetch b)]\<rparr>,
          \<lambda>fuel. Consumer_run fuel (worker_consumer L W (b_prefetch b)) (b_exchange b))"
  by (simp add: TaskSummarizer_Register_def NewConsumer_def worker_consumer_def Let_def)

interpretation paid_consumer:
  message_handler "worker_consumer L (production_worker b c dd) n" for L b c dd n
  by unfold_locales (simp add: only_mono [OF paid_worker.Handle_calls worker_not_consumer])

interpretation free_consumer:
  message_handler "worker_consumer L (NewTaskSummarizer (production_service b) (Disabled m) dd) n"
  for L b m dd n
  by unfold_locales (simp add: only_mono [OF free_worker.Handle_calls worker_not_consumer])

section \<open>What an error leaves behind\<close>

text \<open>
  A status statement for the task that was reported as failed, and the attempt to set the task
  back to pending.
\<close>

fun update_failed :: "uuid \<Rightarrow> TaskStatus \<Rightarrow> event \<Rightarrow> bool" where
  "update_failed i st (EExec (Updates c as) (Inl e)) \<longleftrightarrow>
     (c = IdIs i \<or> c = CondAnd (IdIs i) (StatusIs TaskStatusPending)) \<and> SetStatus st \<in> set as"
| "update_failed i st ev \<longleftrightarrow> False"

fun resets_task :: "uuid \<Rightarrow> event \<Rightarrow> bool" where
  "resets_task i (EExec s r) \<longleftrightarrow> s = Updates (IdIs i) [SetStatus TaskStatusPending]"
| "resets_task i ev \<longleftrightarrow> False"

abbreviation failed_in :: "event list \<Rightarrow> uuid \<Rightarrow> TaskStatus \<Rightarrow> bool" where
  "failed_in evs i st \<equiv> list_ex (update_failed i st) evs"

lemma failed_inI:
  assumes "EExec (Updates c as) r \<in> set evs" "isl r"
    and "c = IdIs i \<or> c = CondAnd (IdIs i) (StatusIs TaskStatusPending)" "SetStatus st \<in> set as"
  shows "failed_in evs i st"
proof -
  obtain e where "r = Inl e" using assms(2) by (cases r) simp_all
  with assms(3,4) have "update_failed i st (EExec (Updates c as) r)" by simp
  with assms(1) show ?thesis unfolding list_ex_iff by blast
qed

lemma list_ex_mono: "list_ex P xs \<Longrightarrow> set xs \<subseteq> set ys \<Longrightarrow> list_ex P ys"
  by (auto simp: list_ex_iff)

text \<open>The summary the model gave, as it is stored.\<close>

definition model_summary ::
  "'w env \<Rightarrow> llm_client \<Rightarrow> task_created_payload \<Rightarrow> task \<Rightarrow> string \<Rightarrow> bool" where
  "model_summary E C p t sm \<longleftrightarrow>
     (\<exists>x w1 w2. run E (lc_Summarize C (summary_text p)) w1 = (Inr x, w2) \<and>
                sm = (if x = '''' then Summary t else x))"

text \<open>
  How a pending task \<open>t\<close> can be left: pending, with a new summary only if the statement that
  stores it was reported as failed; processing only if the claim or the reset was; completed
  only if both the statement that completes it and the reset were.
\<close>

definition interrupted ::
  "'w env \<Rightarrow> llm_client \<Rightarrow> task_created_payload \<Rightarrow> event list \<Rightarrow> task \<Rightarrow> task \<Rightarrow> bool" where
  "interrupted E C p evs t t' \<longleftrightarrow>
     (\<exists>sm. t' = t\<lparr>Status := TaskStatusPending, Summary := sm\<rparr> \<and>
        (sm = Summary t \<or>
         model_summary E C p t sm \<and> failed_in evs (pl_TaskID p) TaskStatusCompleted)) \<or>
     t' = t\<lparr>Status := TaskStatusProcessing\<rparr> \<and>
       (failed_in evs (pl_TaskID p) TaskStatusProcessing \<or>
        failed_in evs (pl_TaskID p) TaskStatusPending) \<or>
     (\<exists>sm. t' = t\<lparr>Status := TaskStatusCompleted, Summary := sm\<rparr> \<and> model_summary E C p t sm \<and>
        failed_in evs (pl_TaskID p) TaskStatusCompleted \<and>
        failed_in evs (pl_TaskID p) TaskStatusPending)"

lemma interrupted_mono: "interrupted E C p evs t t' \<Longrightarrow> set evs \<subseteq> set evs' \<Longrightarrow> interrupted E C p evs' t t'"
  unfolding interrupted_def list_ex_iff by blast

lemma interrupted_unchanged: "Status t = TaskStatusPending \<Longrightarrow> interrupted E C p evs t t"
  unfolding interrupted_def by (intro disjI1 exI [of _ "Summary t"]) (cases t, simp)

lemma give_back_outcome:
  assumes "gorm_laws E V" "store V w i = Some t"
    and "run E (Summarizer_give_back (production_worker b c dd) ev i err) w = (r, w')"
  shows "list_ex (resets_task i) (log E (Summarizer_give_back (production_worker b c dd) ev i err) w) \<and>
         (store V w' = (store V w)(i \<mapsto> t\<lparr>Status := TaskStatusPending\<rparr>) \<or>
          store V w' = store V w \<and>
          failed_in (log E (Summarizer_give_back (production_worker b c dd) ev i err) w) i TaskStatusPending)"
proof -
  let ?rel = "case dd of None \<Rightarrow> Return () | Some d \<Rightarrow> Dedupe_Release d ev"
  let ?s = "Updates (IdIs i) [SetStatus TaskStatusPending]"
  obtain u where u: "run E ?rel w = ((), u)" by (metis old.unit.exhaust surj_pair)
  have su: "store V u = store V w" using u paid_worker.dedupe_store(2) [OF assms(1)] by (cases dd) auto
  obtain y v where y: "run E (TaskService_MarkPending (production_service b) i) u = (y, v)" by fastforce
  obtain x z where x: "on_exec E ?s u = (x, z)" by fastforce
  have lg: "log E (Summarizer_give_back (production_worker b c dd) ev i err) w =
      log E ?rel w @ log E (TaskService_MarkPending (production_service b) i) u"
    using u y by (simp add: Summarizer_give_back_def)
  have ev: "EExec ?s x \<in> set (log E (TaskService_MarkPending (production_service b) i) u)"
    using x by (simp add: TaskService_MarkPending_def taskRepository_UpdateStatus_def Let_def)
  have w': "w' = v" using assms(3) u y by (simp add: Summarizer_give_back_def)
  have "store V v = (store V u)(i \<mapsto> t\<lparr>Status := TaskStatusPending\<rparr>) \<or> store V v = store V u \<and> isl x"
  proof (cases x)
    case (Inl e)
    from stack.MarkPending_any [OF assms(1) y] su assms(2) Inl show ?thesis by (auto simp: status_abs_def)
  next
    case (Inr n)
    obtain q where q: "run E (taskRepository_UpdateStatus i TaskStatusPending '''') u = (q, z)"
        "q = (if n = 0 then Some ErrNotFound else None)"
      using x Inr by (simp add: taskRepository_UpdateStatus_def Let_def)
    have "n \<noteq> 0" using gorm_store.set_status [OF assms(1), of i TaskStatusPending "''''" u q z] q su assms(2) by auto
    with q y have "y = None" by (auto simp: TaskService_MarkPending_def split: prod.splits)
    from stack.MarkPending_store [OF assms(1) y [unfolded this]] su assms(2) show ?thesis by auto
  qed
  moreover have "failed_in (log E (TaskService_MarkPending (production_service b) i) u) i TaskStatusPending"
    if "isl x"
    by (rule failed_inI [OF ev that]) simp_all
  moreover have "list_ex (resets_task i) (log E (TaskService_MarkPending (production_service b) i) u)"
    unfolding list_ex_iff by (rule bexI [OF _ ev]) simp
  ultimately show ?thesis unfolding lg w' using su by auto
qed

text \<open>An error after the claim.\<close>

lemma summarize_outcome:
  assumes "gorm_laws E V" "Status t = TaskStatusPending"
    and row: "store V w (pl_TaskID p) = Some (t\<lparr>Status := TaskStatusProcessing\<rparr>)"
    and "run E (Summarizer_summarize L (production_worker b c dd) ev p) w = (Some e, w')"
  shows "list_ex (resets_task (pl_TaskID p)) (log E (Summarizer_summarize L (production_worker b c dd) ev p) w) \<and>
         (\<exists>t'. store V w' = (store V w)(pl_TaskID p \<mapsto> t') \<and>
            interrupted E (client_iface c) p
              (log E (Summarizer_summarize L (production_worker b c dd) ev p) w) t t')"
proof -
  let ?i = "pl_TaskID p" and ?svc = "production_service b" and ?W = "production_worker b c dd"
  let ?lg = "log E (Summarizer_summarize L ?W ev p) w"
  have unch: "t\<lparr>Status := TaskStatusPending, Summary := Summary t\<rparr> = t" using assms(2) by simp
  obtain x u where x: "run E (client_Summarize c (summary_text p)) w = (x, u)" by fastforce
  have su: "store V u = store V w"
    using paid_worker.llm_store [OF assms(1), of c "summary_text p" w x u] x by simp
  show ?thesis
  proof (cases x)
    case (Inl err)
    let ?g = "Summarizer_give_back ?W ev ?i (errorf (''summarize task '' @ uuid_String ?i) err)"
    have g: "run E ?g u = (Some e, w')" and lg: "set (log E ?g u) \<subseteq> set ?lg"
      using assms(4) x Inl by (auto simp: Summarizer_summarize_def)
    have "store V u ?i = Some (t\<lparr>Status := TaskStatusProcessing\<rparr>)" using row su by simp
    note gb = give_back_outcome [OF assms(1) this g]
    then have "interrupted E (client_iface c) p (log E ?g u) t t \<and> store V w' = (store V w)(?i \<mapsto> t) \<or>
        interrupted E (client_iface c) p (log E ?g u) t (t\<lparr>Status := TaskStatusProcessing\<rparr>) \<and>
        store V w' = (store V w)(?i \<mapsto> t\<lparr>Status := TaskStatusProcessing\<rparr>)"
      using su row unch interrupted_unchanged [OF assms(2)]
      by (auto simp: interrupted_def fun_upd_idem)
    then have "\<exists>t'. store V w' = (store V w)(?i \<mapsto> t') \<and> interrupted E (client_iface c) p (log E ?g u) t t'"
      by blast
    with gb list_ex_mono [OF _ lg] show ?thesis by (blast intro: interrupted_mono [OF _ lg])
  next
    case (Inr sm)
    let ?s = "Updates (IdIs ?i) ([SetStatus TaskStatusCompleted] @ (if sm \<noteq> '''' then [SetSummary sm] else []))"
    obtain y v where y: "run E (TaskService_ApplySummary L ?svc ?i sm) u = (y, v)" by fastforce
    obtain err where err: "y = Some err"
      using assms(4) x Inr y by (cases y) (simp_all add: Summarizer_summarize_def)
    note ap = stack.ApplySummary_any [OF assms(1) y [unfolded err]]
    have nf: "\<not> errors_Is err ErrNotFound" using ap su row by auto
    obtain z q where z: "on_exec E ?s u = (z, q)" by fastforce
    have isl: "isl z"
    proof (cases z)
      case (Inr n)
      then show ?thesis
        using y z err nf
        by (auto simp: TaskService_ApplySummary_def taskRepository_UpdateStatus_def Let_def
            split: prod.splits sum.splits if_splits)
    qed simp
    let ?g = "Summarizer_give_back ?W ev ?i (errorf (''apply summary for '' @ uuid_String ?i) err)"
    have g: "run E ?g v = (Some e, w')" and lg: "set (log E ?g v) \<subseteq> set ?lg"
      and lga: "set (log E (TaskService_ApplySummary L ?svc ?i sm) u) \<subseteq> set ?lg"
      using assms(4) x Inr y err nf by (auto simp: Summarizer_summarize_def)
    have "EExec ?s z \<in> set ?lg"
      using z lga by (auto simp: TaskService_ApplySummary_def taskRepository_UpdateStatus_def Let_def)
    then have fc: "failed_in ?lg ?i TaskStatusCompleted" by (rule failed_inI [OF _ isl]) simp_all
    let ?sum = "if sm = '''' then Summary t else sm"
    have model: "model_summary E (client_iface c) p t ?sum"
      using x Inr unfolding model_summary_def by (intro exI [of _ sm] exI [of _ w] exI [of _ u]) simp
    have "store V w = (store V w)(?i \<mapsto> t\<lparr>Status := TaskStatusProcessing\<rparr>)"
      using row by (simp add: fun_upd_idem)
    with ap nf su row obtain t1 where t1: "store V v = (store V w)(?i \<mapsto> t1)"
      and t1c: "t1 = t\<lparr>Status := TaskStatusProcessing\<rparr> \<or> t1 = t\<lparr>Status := TaskStatusCompleted, Summary := ?sum\<rparr>"
      by (auto simp: status_abs_def)
    have "store V v ?i = Some t1" using t1 by simp
    note gb = give_back_outcome [OF assms(1) this g]
    have fp: "failed_in (log E ?g v) ?i TaskStatusPending \<Longrightarrow> failed_in ?lg ?i TaskStatusPending"
      by (rule list_ex_mono [OF _ lg])
    from gb t1 consider "store V w' = (store V w)(?i \<mapsto> t1\<lparr>Status := TaskStatusPending\<rparr>)"
      | "store V w' = (store V w)(?i \<mapsto> t1)" "failed_in ?lg ?i TaskStatusPending"
      using fp by auto
    then have "\<exists>t'. store V w' = (store V w)(?i \<mapsto> t') \<and> interrupted E (client_iface c) p ?lg t t'"
    proof cases
      case 1
      have "interrupted E (client_iface c) p ?lg t (t1\<lparr>Status := TaskStatusPending\<rparr>)"
        using t1c
      proof
        assume "t1 = t\<lparr>Status := TaskStatusProcessing\<rparr>"
        then have "t1\<lparr>Status := TaskStatusPending\<rparr> = t" using assms(2) by (cases t) simp
        then show ?thesis by (simp only: interrupted_unchanged [OF assms(2)])
      next
        assume "t1 = t\<lparr>Status := TaskStatusCompleted, Summary := ?sum\<rparr>"
        then show ?thesis using model fc unfolding interrupted_def
          by (intro disjI1 exI [of _ ?sum]) simp
      qed
      with 1 show ?thesis by blast
    next
      case 2
      with t1c model fc show ?thesis unfolding interrupted_def by blast
    qed
    with gb list_ex_mono [OF _ lg] show ?thesis by blast
  qed
qed

lemma process_outcome:
  assumes "gorm_laws E V"
    and "run E (Summarizer_process L (production_worker b c dd) ev p) w = (Some e, w')"
  shows "if list_ex llm_event (log E (Summarizer_process L (production_worker b c dd) ev p) w)
         then list_ex (resets_task (pl_TaskID p))
                (log E (Summarizer_process L (production_worker b c dd) ev p) w)
         else True"
    and "store V w' = store V w \<or>
         (\<exists>t t'. store V w (pl_TaskID p) = Some t \<and> Status t = TaskStatusPending \<and>
            store V w' = (store V w)(pl_TaskID p \<mapsto> t') \<and>
            interrupted E (client_iface c) p
              (log E (Summarizer_process L (production_worker b c dd) ev p) w) t t')"
proof -
  let ?i = "pl_TaskID p" and ?svc = "production_service b" and ?W = "production_worker b c dd"
  let ?lg = "log E (Summarizer_process L ?W ev p) w"
  obtain x u where x: "run E (TaskService_BeginProcessing ?svc ?i) w = (x, u)" by fastforce
  have nl: "\<not> list_ex llm_event (log E (TaskService_BeginProcessing ?svc ?i) w)"
    by (rule paid_worker.BeginProcessing_no_llm [OF x])
  have both: "(if list_ex llm_event ?lg then list_ex (resets_task ?i) ?lg else True) \<and>
     (store V w' = store V w \<or>
      (\<exists>t t'. store V w ?i = Some t \<and> Status t = TaskStatusPending \<and>
         store V w' = (store V w)(?i \<mapsto> t') \<and> interrupted E (client_iface c) p ?lg t t'))"
  proof (cases x)
    case (Inl err)
    let ?s = "Updates (CondAnd (IdIs ?i) (StatusIs TaskStatusPending)) [SetStatus TaskStatusProcessing]"
    have lg: "?lg = log E (TaskService_BeginProcessing ?svc ?i) w" and w': "w' = u"
      using assms(2) x Inl by (auto simp: Summarizer_process_def split: if_splits)
    obtain y v where y: "on_exec E ?s w = (y, v)" by fastforce
    with x Inl have "isl y"
      by (cases y) (auto simp: TaskService_BeginProcessing_def taskRepository_MarkProcessing_def
          split: prod.splits if_splits)
    moreover have "EExec ?s y \<in> set ?lg"
      using y unfolding lg by (simp add: TaskService_BeginProcessing_def taskRepository_MarkProcessing_def)
    ultimately have f: "failed_in ?lg ?i TaskStatusProcessing" by (intro failed_inI) auto
    have "store V u = store V w \<or> store V u = snd (claim_abs ?i (store V w))"
      by (rule stack.BeginProcessing_any [OF assms(1) x])
    with f nl w' lg show ?thesis
      by (auto simp: claim_abs_def interrupted_def split: option.splits if_splits)
  next
    case (Inr won)
    note cl = stack.BeginProcessing_claims [OF assms(1) x [unfolded Inr]]
    have s: "won" "run E (Summarizer_summarize L ?W ev p) u = (Some e, w')"
      and lg: "?lg = log E (TaskService_BeginProcessing ?svc ?i) w @ log E (Summarizer_summarize L ?W ev p) u"
      using assms(2) x Inr by (auto simp: Summarizer_process_def split: if_splits)
    from cl s(1) obtain t where t: "store V w ?i = Some t" "Status t = TaskStatusPending"
      and su: "store V u = (store V w)(?i \<mapsto> t\<lparr>Status := TaskStatusProcessing\<rparr>)"
      by (auto simp: claim_abs_def split: option.splits if_splits)
    from su have "store V u ?i = Some (t\<lparr>Status := TaskStatusProcessing\<rparr>)" by simp
    note so = summarize_outcome [OF assms(1) t(2) this s(2)]
    have sub: "set (log E (Summarizer_summarize L ?W ev p) u) \<subseteq> set ?lg" unfolding lg by simp
    from so obtain t' where t': "store V w' = (store V u)(?i \<mapsto> t')"
      "interrupted E (client_iface c) p ?lg t t'"
      by (blast intro: interrupted_mono [OF _ sub])
    moreover have "list_ex (resets_task ?i) ?lg" using so list_ex_mono [OF _ sub] by blast
    ultimately show ?thesis using su t by auto
  qed
  from both show "if list_ex llm_event ?lg then list_ex (resets_task ?i) ?lg else True" by (rule conjunct1)
  from both show "store V w' = store V w \<or>
      (\<exists>t t'. store V w ?i = Some t \<and> Status t = TaskStatusPending \<and>
         store V w' = (store V w)(?i \<mapsto> t') \<and> interrupted E (client_iface c) p ?lg t t')"
    by (rule conjunct2)
qed

section \<open>Samples\<close>

definition sample_message :: bytes where
  "sample_message =
     Json (JObj
       [(''id'', JStr ''e1''), (''type'', JStr ''task.created''), (''timestamp'', JStr ''10''),
        (''payload'', JObj
           [(''task_id'', JStr (uuid_String sample_id)), (''title'', JStr ''Write docs''),
            (''description'', JStr ''the API'')])])"

definition sample_broker :: broker where
  "sample_broker = \<lparr>b_exchange = ''app.events'', b_prefetch = 10, b_pubCh = True,
                    b_consumers = [], b_closed = False\<rparr>"

definition sample_client :: client where
  "sample_client = \<lparr>c_model = ''m'', c_temperature = 0, c_maxTokens = 64\<rparr>"

abbreviation sample_handle :: "goerror option prog" where
  "sample_handle \<equiv>
     TaskSummarizer_Handle mem_lib
       (production_worker sample_broker sample_client (Some (NewDedupe 0))) sample_message"

lemma sample_message_of:
  "message_of mem_lib sample_message =
     Some (''e1'', \<lparr>pl_TaskID = sample_id, pl_Title = ''Write docs'', pl_Description = ''the API''\<rparr>)"
  by code_simp

lemma store_status_of: "map_option Status (store V w i) = map_option Status (rows V w i)"
  by (cases "rows V w i") (simp_all add: store_def)

section \<open>Properties of the handler\<close>

text \<open>
  C1: What one delivery does to the tasks. When the handler acknowledges a message (no
  error), the store is unchanged, or the message named a pending task and this task, and no
  other, is now completed with a summary that the model returned for the message's text.
  When it reports an error, the message is a task.created message; if the model was called,
  the statement that sets the task back to pending was sent; and the store is unchanged, or
  only the task of the message, which was pending, has changed, in one of three ways: it is
  pending with the model's summary, and the statement that completes it was reported as
  failed; or processing with its old summary, and the claim or the reset failed; or completed
  with the model's summary, and both that statement and the reset were reported as failed. So
  a task is handed back whenever the statements on it succeed. A delivery never creates,
  deletes or fails a task.
\<close>

theorem Handle_outcome:
  assumes "gorm_laws E V"
    and "run E (TaskSummarizer_Handle L (production_worker b c dd) body) w = (r, w')"
  shows "case r of
           None \<Rightarrow> store V w' = store V w \<or>
             (\<exists>ev p. message_of L body = Some (ev, p) \<and>
                completes E (client_iface c) p (store V w) (store V w'))
         | Some e \<Rightarrow>
             (\<exists>ev p. message_of L body = Some (ev, p) \<and>
                (if list_ex llm_event (log E (TaskSummarizer_Handle L (production_worker b c dd) body) w)
                 then list_ex (resets_task (pl_TaskID p))
                        (log E (TaskSummarizer_Handle L (production_worker b c dd) body) w)
                 else True) \<and>
                (store V w' = store V w \<or>
                 (\<exists>t t'. store V w (pl_TaskID p) = Some t \<and> Status t = TaskStatusPending \<and>
                    store V w' = (store V w)(pl_TaskID p \<mapsto> t') \<and>
                    interrupted E (client_iface c) p
                      (log E (TaskSummarizer_Handle L (production_worker b c dd) body) w) t t')))"
proof -
  let ?lg = "log E (TaskSummarizer_Handle L (production_worker b c dd) body) w"
  from paid_worker.Handle_store [OF assms]
  consider "store V w' = store V w" "r = None"
    | ev p w0 h where "message_of L body = Some (ev, p)" "store V w0 = store V w"
        "run E (Summarizer_process L (production_worker b c dd) ev p) w0 = (r, w')"
        "?lg = h @ log E (Summarizer_process L (production_worker b c dd) ev p) w0"
        "list_all (\<lambda>ev. \<not> llm_event ev) h" by blast
  then show ?thesis
  proof cases
    case 2
    show ?thesis
    proof (cases r)
      case None
      with paid_worker.process_store [OF assms(1) 2(3) [unfolded None]] 2(1,2) show ?thesis by auto
    next
      case (Some e)
      note po = process_outcome [OF assms(1) 2(3) [unfolded Some]]
      have sub: "set (log E (Summarizer_process L (production_worker b c dd) ev p) w0) \<subseteq> set ?lg"
        unfolding 2(4) by simp
      have "\<not> list_ex llm_event h" using 2(5) by (auto simp: list_all_iff list_ex_iff)
      with po(1) have "if list_ex llm_event ?lg then list_ex (resets_task (pl_TaskID p)) ?lg else True"
        unfolding 2(4) by (auto split: if_splits)
      with po(2) 2(1,2) Some show ?thesis by (auto intro: interrupted_mono [OF _ sub])
    qed
  qed simp
qed

theorem Handle_outcome_witness:
  "\<exists>w'. run mem_env sample_handle (mem_with [sample_task TaskStatusPending]) = (None, w') \<and>
        (\<exists>ev p. message_of mem_lib sample_message = Some (ev, p) \<and>
           completes mem_env (client_iface sample_client) p
             (store mem_view (mem_with [sample_task TaskStatusPending])) (store mem_view w'))"
proof -
  let ?w = "mem_with [sample_task TaskStatusPending]"
  have "fst (run mem_env sample_handle ?w) = None" by code_simp
  note r = run_fst [OF this]
  have "map_option Status (mem_rows (snd (run mem_env sample_handle ?w)) sample_id) =
      Some TaskStatusCompleted" by code_simp
  moreover have "map_option Status (mem_rows ?w sample_id) = Some TaskStatusPending" by code_simp
  ultimately have "map_option Status (store mem_view (snd (run mem_env sample_handle ?w)) sample_id) \<noteq>
      map_option Status (store mem_view ?w sample_id)"
    by (simp only: store_status_of mem_view_simps option.inject status_distinct not_False_eq_True)
  then have "store mem_view (snd (run mem_env sample_handle ?w)) \<noteq> store mem_view ?w" by metis
  with Handle_outcome [OF mem_gorm_laws r] r show ?thesis unfolding option.case by blast
qed

text \<open>
  C2: The model is paid once and only for a claimed task. Whatever the services reply,
  while a task.created message is handled the model is called only after the conditional
  update of that message's task has changed a row, and at most once; for any other body it
  is not called at all.
\<close>

theorem Handle_pays_after_claim:
  "case message_of L body of
     None \<Rightarrow> only (\<lambda>ev. \<not> llm_event ev \<and> \<not> db_event ev)
               (TaskSummarizer_Handle L (production_worker b c dd) body)
   | Some (ev, p) \<Rightarrow> always (pays_after_claim (pl_TaskID p)) []
               (TaskSummarizer_Handle L (production_worker b c dd) body)"
  by (rule paid_worker.Handle_pays) simp

text \<open>
  A failure of the model leaves the message retryable. If Redis loses nothing and
  answers every command of the run, and handling a message with a non-empty event ID called
  the model and returned an error, then the event's marker is gone, so the redelivered
  message is not dropped as a duplicate.
\<close>

lemma Handle_failure_is_retryable:
  assumes "redis_durable E V" and "message_of L body = Some (ev, p)" and "ev \<noteq> ''''"
    and "run E (TaskSummarizer_Handle L (production_worker b c (Some d)) body) w = (Some e, w')"
    and "list_ex llm_event (log E (TaskSummarizer_Handle L (production_worker b c (Some d)) body) w)"
    and "list_all (\<lambda>ev. \<not> failed ev)
           (log E (TaskSummarizer_Handle L (production_worker b c (Some d)) body) w)"
  shows "kv V w' (dedupe_key ev) = None"
  by (rule paid_worker.Handle_failure_releases [OF assms])

lemma Handle_failure_is_retryable_witness:
  "\<exists>e w'. run mem_env sample_handle
            ((mem_with [sample_task TaskStatusPending])\<lparr>m_faults := [False, False, False, True]\<rparr>) =
            (Some e, w') \<and> m_kv w' (dedupe_key ''e1'') = None"
proof -
  let ?w = "(mem_with [sample_task TaskStatusPending])\<lparr>m_faults := [False, False, False, True]\<rparr>"
  have "fst (run mem_env sample_handle ?w) \<noteq> None" by code_simp
  then obtain e where e: "fst (run mem_env sample_handle ?w) = Some e" by auto
  have l: "list_ex llm_event (log mem_env sample_handle ?w)" by code_simp
  have f: "list_all (\<lambda>ev. \<not> failed ev) (log mem_env sample_handle ?w)" by code_simp
  from Handle_failure_is_retryable [OF mem_redis_durable sample_message_of _ run_fst [OF e] l f]
    run_fst [OF e] show ?thesis by auto
qed

text \<open>
  C16: A failure to claim loses the message. If Redis loses nothing and answers every command,
  and handling a message with a non-empty event ID and a text that is not blank returned an
  error without calling the model (the claim statement failed), then from any state where
  that run's marker is still there the redelivered message is acknowledged as a duplicate,
  without a single database call: the retry never runs.
\<close>

theorem claim_failure_is_not_retried:
  assumes "redis_durable E V" and "message_of L body = Some (ev, p)" and "ev \<noteq> ''''"
    and "TrimSpace (summary_text p) \<noteq> ''''"
    and "run E (TaskSummarizer_Handle L (production_worker b c (Some d)) body) w = (Some e, w1)"
    and "list_all (\<lambda>ev. \<not> llm_event ev \<and> \<not> failed ev)
           (log E (TaskSummarizer_Handle L (production_worker b c (Some d)) body) w)"
    and "kv V w2 (dedupe_key ev) = kv V w1 (dedupe_key ev)"
    and "list_all (\<lambda>ev. \<not> failed ev)
           (log E (TaskSummarizer_Handle L (production_worker b c (Some d)) body) w2)"
  shows "fst (run E (TaskSummarizer_Handle L (production_worker b c (Some d)) body) w2) = None \<and>
         list_all (\<lambda>ev. \<not> db_event ev)
           (log E (TaskSummarizer_Handle L (production_worker b c (Some d)) body) w2)"
proof -
  have "list_ex llm_event (log E (lc_Summarize (client_iface c) (summary_text p)) w)" for w
    using assms(4) by (simp add: client_Summarize_def client_Complete_def split: prod.split)
  from paid_worker.Handle_claim_error_keeps_marker [OF assms(1-3,5,6) this] assms(7)
  have m: "kv V w2 (dedupe_key ev) \<noteq> None" by simp
  have "\<not> list_ex db_event (log E (Dedupe_Claim L d ev) w2)"
    by (rule only_list_ex [OF only_mono [OF Claim_no_db]]) simp
  with paid_worker.Handle_marked_dropped [OF assms(1-3) m run_fst [OF refl] assms(8)]
  show ?thesis by (simp add: list_ex_iff list_all_iff)
qed

theorem claim_failure_is_not_retried_witness:
  "\<exists>e w1. run mem_env sample_handle
             ((mem_with [sample_task TaskStatusPending])\<lparr>m_faults := [False, True]\<rparr>) = (Some e, w1) \<and>
           fst (run mem_env sample_handle w1) = None"
proof -
  let ?w = "(mem_with [sample_task TaskStatusPending])\<lparr>m_faults := [False, True]\<rparr>"
  let ?p = "\<lparr>pl_TaskID = sample_id, pl_Title = ''Write docs'', pl_Description = ''the API''\<rparr>"
  have "fst (run mem_env sample_handle ?w) \<noteq> None" by code_simp
  then obtain e where e: "fst (run mem_env sample_handle ?w) = Some e" by auto
  have t: "TrimSpace (summary_text ?p) \<noteq> ''''" by code_simp
  have l: "list_all (\<lambda>ev. \<not> llm_event ev \<and> \<not> failed ev) (log mem_env sample_handle ?w)" by code_simp
  have f: "list_all (\<lambda>ev. \<not> failed ev)
      (log mem_env sample_handle (snd (run mem_env sample_handle ?w)))" by code_simp
  from claim_failure_is_not_retried
      [OF mem_redis_durable sample_message_of _ t run_fst [OF e] l refl f] run_fst [OF e]
  show ?thesis by auto
qed

section \<open>Properties of the consumer that runs it\<close>

text \<open>
  C14: Every delivery is settled exactly once, in order. However long the consumer runs and
  however often its channel fails, the tags it acknowledged or rejected are the tags
  that were delivered to it, each once and in the same order.
\<close>

theorem deliveries_settled_once:
  "tags settled_tag (log E (Consumer_run fuel (production_consumer L b c dd n) x) w) =
   tags delivered_tag (log E (Consumer_run fuel (production_consumer L b c dd n) x) w)"
  unfolding Consumer_run_def by (rule paid_consumer.run_tags)

text \<open>
  C26: How a delivery is settled, and that a retry does not wait. An acknowledged delivery is
  one whose handler returned no error; after an error the message is republished to the queue
  with its counter raised and its other headers, content type and body unchanged, and then
  acknowledged, or rejected without requeueing when the republication fails; once the counter
  has reached three it is rejected, which dead-letters it. No branch waits: the delay of
  one, two or four seconds that \<^verbatim>\<open>retryOrDeadLetter\<close> computes is not slept.
\<close>

theorem handle_settles_without_delay:
  "settlement (production_consumer L b c dd n) d
     (fst (run E (TaskSummarizer_Handle L (production_worker b c dd) (d_Body d)) w) \<noteq> None)
     (filter consumer_event (log E (Consumer_handle (production_consumer L b c dd n) d) w)) \<and>
   waited (log E (Consumer_handle (production_consumer L b c dd n) d) w) = 0 \<and>
   map retry_delay [0, 1, 2] =
     [word_of_int second, word_of_int (2 * second), word_of_int (4 * second)]"
  using paid_consumer.handle_settles [of L b c dd n d E w] paid_consumer.handle_waits(1) [of E L b c dd n d w]
  by (simp add: retry_delay_def)

text \<open>
  C15: A failing message is retried three times at most. If a message without a retry counter
  was republished \<open>n\<close> times in a row, each time by handling the delivery of the previous
  republication, then \<open>n\<close> is at most three, the counter of the last delivery says \<open>n\<close>, and its
  body, content type and other headers are those of the first one.
\<close>

theorem retries_bounded:
  assumes "(retried E (production_consumer L b c dd m) ^^ n) d d'"
    and "d_Headers d headerRetryCount = None"
  shows "n \<le> 3 \<and> retryCount (d_Headers d') headerRetryCount = int n \<and>
         d_Body d' = d_Body d \<and> d_ContentType d' = d_ContentType d \<and>
         d_Headers d' |` (- {headerRetryCount}) = d_Headers d |` (- {headerRetryCount})"
proof -
  have z: "retries_of d = 0" using assms(2) by (simp add: retryCount_def)
  from paid_consumer.retried_chain [OF assms(1)] show ?thesis
    by (auto simp: z MaxRetries_def restrict_map_def fun_eq_iff)
qed

definition sample_delivery :: delivery where
  "sample_delivery =
     \<lparr>d_Tag = 1, d_ContentType = ''application/json'', d_RoutingKey = RoutingTaskCreated,
      d_Headers = Map.empty, d_Body = sample_message\<rparr>"

abbreviation sample_consumer :: consumer where
  "sample_consumer \<equiv>
     production_consumer mem_lib sample_broker sample_client (Some (NewDedupe 0)) 10"

fun requeued :: "event \<Rightarrow> bool" where
  "requeued (EAmqp (PublishPlain x q p) r) \<longleftrightarrow> x = '''' \<and> q = QueueTaskEvents \<and> r = None"
| "requeued ev \<longleftrightarrow> False"

lemma sample_retried:
  "\<exists>d'. retried mem_env sample_consumer sample_delivery d'"
proof -
  let ?w = "(mem_with [sample_task TaskStatusPending])\<lparr>m_faults := [False, False, False, True]\<rparr>"
  have "list_ex requeued (log mem_env (Consumer_handle sample_consumer sample_delivery) ?w)"
    by code_simp
  then obtain ev where ev: "ev \<in> set (log mem_env (Consumer_handle sample_consumer sample_delivery) ?w)"
    "requeued ev" by (auto simp: list_ex_iff)
  from ev(2) obtain p where "ev = EAmqp (PublishPlain '''' (cn_queue sample_consumer) p) None"
    by (cases ev rule: requeued.cases) auto
  with ev(1) have "retried mem_env sample_consumer sample_delivery
      \<lparr>d_Tag = 2, d_ContentType = p_ContentType p, d_RoutingKey = QueueTaskEvents,
       d_Headers = p_Headers p, d_Body = p_Body p\<rparr>"
    by (intro retried.retry [of _ p _ _ ?w]) simp_all
  then show ?thesis by blast
qed

theorem retries_bounded_witness:
  "\<exists>d'. (retried mem_env sample_consumer ^^ 1) sample_delivery d' \<and>
        retryCount (d_Headers d') headerRetryCount = 1 \<and> d_Body d' = sample_message"
proof -
  obtain d' where "(retried mem_env sample_consumer ^^ 1) sample_delivery d'"
    using sample_retried by auto
  from retries_bounded [OF this] this show ?thesis
    by (auto simp: sample_delivery_def)
qed

text \<open>
  C30: The consumer opens its channel at most ten times in its life. However many deliveries
  it handles in between, ten channel failures end it, after 55.5 seconds of backoff in all;
  it never waits longer than that.
\<close>

theorem consumer_gives_up:
  "opens (log E (Consumer_run fuel (production_consumer L b c dd n) x) w) \<le> 10 \<and>
   waited (log E (Consumer_run fuel (production_consumer L b c dd n) x) w) \<le> 55500 * millisecond \<and>
   (case fst (run E (Consumer_run fuel (production_consumer L b c dd n) x) w) of
      GaveUp \<Rightarrow>
        opens (log E (Consumer_run fuel (production_consumer L b c dd n) x) w) = 10 \<and>
        waited (log E (Consumer_run fuel (production_consumer L b c dd n) x) w) = 55500 * millisecond
    | _ \<Rightarrow> True)"
proof -
  have ten: "Suc 9 = 10" and pos: "(0 :: int) < 500 * millisecond" by simp_all
  from paid_consumer.run_bounds [OF pos, of E fuel 9 L b c dd n x w] show ?thesis
    unfolding Consumer_run_def ten wait_budget_ten by (auto split: run_end.split)
qed

text \<open>
  The reading loop does not stop early. With fuel for \<open>fuel\<close> deliveries the loop is
  still running exactly when it has handled that many, so a loop whose deliveries end, or
  that is stopped, returns whatever its fuel, provided it exceeds their number.
\<close>

lemma consume_loop_progress:
  "length (tags delivered_tag (log E (consume_loop fuel (production_consumer L b c dd n)) w)) \<le> fuel \<and>
   (fst (run E (consume_loop fuel (production_consumer L b c dd n)) w) = Running \<longleftrightarrow>
    length (tags delivered_tag (log E (consume_loop fuel (production_consumer L b c dd n)) w)) = fuel)"
  by (rule paid_consumer.loop_fuel)

end
