(* ===== verification/Service_Cache.thy ===== *)
theory Service_Cache
  imports Task_Summarizer
begin

text \<open>
  Properties of the use cases of \<^verbatim>\<open>internal/service/task_service.go\<close>: creation,
  listing, and the agreement of the Redis cache with the tasks table over sequences of
  use cases. The cache may lose entries at any time; what is proved is that an entry that is
  there spells the current row.
\<close>

section \<open>Agreement of the cache with the table\<close>

definition entry_ok :: "lib \<Rightarrow> table \<Rightarrow> entries \<Rightarrow> uuid \<Rightarrow> bool" where
  "entry_ok L m e i \<longleftrightarrow>
     (case e (task_key i) of
        None \<Rightarrow> True | Some raw \<Rightarrow> \<exists>t. m i = Some t \<and> marshal_task L t = Inr raw)"

text \<open>\<open>F\<close> holds the tasks whose entries may be out of date.\<close>

definition coherent :: "lib \<Rightarrow> uuid set \<Rightarrow> 'w view \<Rightarrow> 'w \<Rightarrow> bool" where
  "coherent L F V w \<longleftrightarrow> (\<forall>i. i \<notin> F \<longrightarrow> entry_ok L (rows V w) (kv V w) i)"

text \<open>Every stored task can be written as JSON.\<close>

definition rows_wire :: "'w view \<Rightarrow> 'w \<Rightarrow> bool" where
  "rows_wire V w \<longleftrightarrow> (\<forall>i t. rows V w i = Some t \<longrightarrow> task_wire_ok t)"

text \<open>A call that did what was asked; a lookup may find nothing.\<close>

fun smooth :: "event \<Rightarrow> bool" where
  "smooth (EExec _ r) \<longleftrightarrow> \<not> isl r"
| "smooth (ERedis _ r) \<longleftrightarrow> r = None"
| "smooth (EFirst _ (Inl e)) \<longleftrightarrow> errors_Is e ErrRecordNotFound"
| "smooth _ \<longleftrightarrow> True"

lemma entry_ok_mono: "entry_ok L m e i \<Longrightarrow> e' \<subseteq>\<^sub>m e \<Longrightarrow> entry_ok L m e' i"
  by (auto simp: entry_ok_def split: option.splits dest: map_leD)

lemma entry_ok_cong: "m' i = m i \<Longrightarrow> entry_ok L m' e i = entry_ok L m e i"
  by (simp add: entry_ok_def split: option.split)

lemma coherent_mono:
  "coherent L F V w \<Longrightarrow> rows V w' = rows V w \<Longrightarrow> kv V w' \<subseteq>\<^sub>m kv V w \<Longrightarrow> coherent L F V w'"
  unfolding coherent_def by (metis entry_ok_mono)

section \<open>One Redis command\<close>

lemma del_lossy:
  assumes "redis_laws E V" "on_redis E (Del k) w = (None, w')"
  shows "kv V w' \<subseteq>\<^sub>m (kv V w)(k := None)"
proof -
  have "answers E w (ERedis (Del k) None) w'" using assms(2) by simp
  from redis_rel [OF assms(1) this] show ?thesis
    by (auto simp: kv_rel_def map_le_def dom_def)
qed

lemma set_lossy:
  assumes "redis_laws E V" "on_redis E (Set k v ttl) w = (None, w')"
  shows "kv V w' \<subseteq>\<^sub>m (kv V w)(k \<mapsto> v)"
proof -
  have "answers E w (ERedis (Set k v ttl) None) w'" using assms(2) by simp
  from redis_rel [OF assms(1) this] show ?thesis
    by (auto simp: kv_rel_def map_le_def dom_def)
qed

lemma get_lossy:
  assumes "redis_laws E V" "on_get E k w = (r, w')"
  shows "kv V w' \<subseteq>\<^sub>m kv V w" "r = Inr raw \<Longrightarrow> kv V w k = Some raw"
proof -
  have "answers E w (EGet k r) w'" using assms(2) by simp
  from redis_rel [OF assms(1) this] obtain m where m: "m \<subseteq>\<^sub>m kv V w" "kv_rel m (EGet k r) (kv V w')"
    by blast
  then show "kv V w' \<subseteq>\<^sub>m kv V w" by (auto simp: kv_rel_def)
  show "kv V w k = Some raw" if "r = Inr raw"
    using m that by (auto simp: kv_rel_def dest: map_leD)
qed

lemma redis_rows:
  "gorm_laws E V \<Longrightarrow> on_redis E c w = (e, w') \<Longrightarrow> rows V w' = rows V w"
  "gorm_laws E V \<Longrightarrow> on_get E k w = (r, w') \<Longrightarrow> rows V w' = rows V w"
  by (rule rows_frame [where p = "RedisDo c Return"], simp_all)
     (rule rows_frame [where p = "RedisGet k Return"], simp_all)

lemma db_kv:
  "redis_laws E V \<Longrightarrow> on_exec E s w = (n, w') \<Longrightarrow> kv V w' \<subseteq>\<^sub>m kv V w"
  "redis_laws E V \<Longrightarrow> on_first E c w = (t, w') \<Longrightarrow> kv V w' \<subseteq>\<^sub>m kv V w"
  by (rule kv_frame [where p = "GormExec s Return"], simp_all)
     (rule kv_frame [where p = "GormFirst c Return"], simp_all)

section \<open>Writing one row\<close>

text \<open>A statement that addresses one task.\<close>

fun addresses :: "uuid \<Rightarrow> stmt \<Rightarrow> bool" where
  "addresses i (Updates c as) \<longleftrightarrow> c = IdIs i \<or> (\<exists>s. c = CondAnd (IdIs i) (StatusIs s))"
| "addresses i (Delete c) \<longleftrightarrow> c = IdIs i"
| "addresses i (Save t) \<longleftrightarrow> False"

lemma row_write:
  assumes "gorm_laws E V" "on_exec E s w = (Inr n, w')" "addresses i s"
  shows "(\<forall>j. j \<noteq> i \<longrightarrow> rows V w' j = rows V w j) \<and> (n = 0 \<longrightarrow> rows V w' = rows V w) \<and> n \<in> {0, 1}"
proof -
  have ok: "table_ok (rows V w)" by (rule gorm_table_ok [OF assms(1)])
  obtain ts where "n = affected s (rows V w)" "rows V w' = stmt_effect ts s (rows V w)"
    using assms(1,2) by (rule exec_Inr)
  with assms(3) show ?thesis
    by (cases s) (auto simp: law_simps ok split: option.splits)
qed

lemma write_then_del:
  assumes "gorm_laws E V" "redis_laws E V" "coherent L F V w"
    and "on_exec E s w = (Inr n, u)" "addresses i s" "on_redis E (Del (task_key i)) u = (None, w')"
  shows "coherent L F V w'"
  unfolding coherent_def
proof (intro allI impI)
  fix j assume jF: "j \<notin> F"
  have kv: "kv V w' \<subseteq>\<^sub>m (kv V u)(task_key i := None)" by (rule del_lossy [OF assms(2,6)])
  show "entry_ok L (rows V w') (kv V w') j"
  proof (cases "j = i")
    case True
    have "kv V w' (task_key i) = None" using map_le_None [OF kv] by simp
    with True show ?thesis by (simp add: entry_ok_def)
  next
    case False
    have "rows V w' j = rows V w j"
      using redis_rows(1) [OF assms(1,6)] row_write [OF assms(1,4,5)] False by simp
    moreover have "kv V w' \<subseteq>\<^sub>m kv V w"
    proof -
      have "(kv V u)(task_key i := None) \<subseteq>\<^sub>m kv V u" by (auto simp: map_le_def)
      with kv db_kv(1) [OF assms(2,4)] show ?thesis by (blast intro: map_le_trans)
    qed
    ultimately show ?thesis
      using assms(3) jF entry_ok_cong [of "rows V w'" j "rows V w"] entry_ok_mono
      unfolding coherent_def by metis
  qed
qed

lemma write_nothing:
  assumes "gorm_laws E V" "redis_laws E V" "coherent L F V w"
    and "on_exec E s w = (Inr 0, w')" "addresses i s"
  shows "coherent L F V w'"
  using coherent_mono [OF assms(3)] row_write [OF assms(1,4,5)] db_kv(1) [OF assms(2,4)] by simp

text \<open>Storing the row in the cache after it was read.\<close>

lemma read_then_set:
  assumes "gorm_laws E V" "redis_laws E V"
    and "\<forall>j. j \<noteq> i \<and> j \<notin> F \<longrightarrow> entry_ok L (rows V w) (kv V w) j"
    and "rows V w i = Some t" "marshal_task L t = Inr raw"
    and "on_redis E (Set (task_key i) raw ttl) w = (None, w')"
  shows "coherent L F V w'"
  unfolding coherent_def
proof (intro allI impI)
  fix j assume jF: "j \<notin> F"
  have kv: "kv V w' \<subseteq>\<^sub>m (kv V w)(task_key i \<mapsto> raw)" by (rule set_lossy [OF assms(2,6)])
  have rows: "rows V w' = rows V w" by (rule redis_rows(1) [OF assms(1,6)])
  have "entry_ok L (rows V w) ((kv V w)(task_key i \<mapsto> raw)) j"
    using assms(3-5) jF by (cases "j = i") (auto simp: entry_ok_def)
  with kv rows show "entry_ok L (rows V w') (kv V w') j" by (simp add: entry_ok_mono)
qed

section \<open>The invariant\<close>

text \<open>
  The clock stays within the years that have a text form: \<open>early\<close> holds at the start of a
  run and \<open>late\<close> is asked of its end.
\<close>

definition early :: "'w view \<Rightarrow> 'w \<Rightarrow> bool" where
  "early V w \<longleftrightarrow> - 62167219200 * second + 1000 \<le> clk V w"

definition late :: "'w view \<Rightarrow> 'w \<Rightarrow> bool" where
  "late V w \<longleftrightarrow> clk V w < 253402300800 * second"

definition cache_inv :: "lib \<Rightarrow> uuid set \<Rightarrow> 'w view \<Rightarrow> 'w \<Rightarrow> bool" where
  "cache_inv L F V w \<longleftrightarrow> coherent L F V w \<and> rows_wire V w \<and> early V w"

lemma run_late: "gorm_laws E V \<Longrightarrow> run E p w = (a, w') \<Longrightarrow> late V w' \<Longrightarrow> late V w"
  using run_clock by (fastforce simp: late_def)

lemma run_early: "gorm_laws E V \<Longrightarrow> run E p w = (a, w') \<Longrightarrow> early V w \<Longrightarrow> early V w'"
  using run_clock by (fastforce simp: early_def)

fun write_event :: "event \<Rightarrow> bool" where
  "write_event (ECreate _ _) \<longleftrightarrow> True"
| "write_event (EExec _ _) \<longleftrightarrow> True"
| "write_event _ \<longleftrightarrow> False"

lemma read_rows: "db_rel lo hi m ev m' \<Longrightarrow> \<not> write_event ev \<Longrightarrow> m' = m"
  by (cases "(lo, hi, m, ev, m')" rule: db_rel.cases) auto

lemma rows_frame_read:
  assumes "gorm_laws E V" and "only (\<lambda>ev. \<not> write_event ev) p" and "run E p w = (a, w')"
  shows "rows V w' = rows V w"
proof -
  have "(\<lambda>u. rows V u = rows V w) w'"
    by (rule run_invariant [OF assms(2) _ assms(3)])
       (auto dest!: read_rows [OF gorm_rel [OF assms(1)]])
  then show ?thesis .
qed

text \<open>A program that neither writes the table nor calls Redis keeps the invariant.\<close>

lemma inv_frame:
  assumes "gorm_laws E V" "redis_laws E V" "cache_inv L F V w"
    and "only (\<lambda>ev. \<not> write_event ev \<and> \<not> redis_event ev) p" "run E p w = (a, w')"
  shows "cache_inv L F V w' \<and> rows V w' = rows V w"
proof -
  have r: "rows V w' = rows V w"
    by (rule rows_frame_read [OF assms(1) only_mono [OF assms(4)] assms(5)]) simp
  have "kv V w' \<subseteq>\<^sub>m kv V w"
    by (rule kv_frame [OF assms(2) only_mono [OF assms(4)] assms(5)]) simp
  with r assms(3) run_early [OF assms(1,5)] coherent_mono [of L F V w w'] show ?thesis
    by (simp add: cache_inv_def rows_wire_def)
qed

lemma updated_wire:
  assumes "task_wire_ok t" "early V w" "late V w'" "clk V w - 1000 < ts" "ts \<le> clk V w'"
  shows "task_wire_ok ((fold apply_assign as t)\<lparr>UpdatedAt := ts\<rparr>)"
proof -
  have "ID (fold apply_assign as t) = ID t \<and> CreatedAt (fold apply_assign as t) = CreatedAt t \<and>
      DeletedAt (fold apply_assign as t) = DeletedAt t"
  proof (induction as arbitrary: t)
    case (Cons a as)
    show ?case using Cons.IH [of "apply_assign a t"] by (cases a) simp_all
  qed simp
  with assms show ?thesis by (simp add: task_wire_ok_def time_in_range_def early_def late_def)
qed

lemma exec_wire:
  assumes "gorm_laws E V" "rows_wire V w" "early V w" "late V w'"
    and "on_exec E s w = (Inr n, w')" "addresses i s"
  shows "rows_wire V w'"
proof -
  obtain ts where ts: "clk V w - 1000 < ts" "ts \<le> clk V w'" "rows V w' = stmt_effect ts s (rows V w)"
    using gorm_rel [OF assms(1) exec_answers [OF assms(5)]] by auto
  have old: "task_wire_ok t" if "rows V w j = Some t" for j t using assms(2) that by (simp add: rows_wire_def)
  show ?thesis
    unfolding rows_wire_def ts(3)
    using assms(6) old updated_wire [OF _ assms(3,4) ts(1,2)]
    by (cases s) (auto simp: stmt_effect.simps map_rows_def split: option.splits if_splits)
qed

section \<open>Every use case keeps it\<close>

lemma smooth_log_pbind:
  "list_all smooth (log E (pbind p f) w) \<Longrightarrow> run E p w = (a, u) \<Longrightarrow>
   list_all smooth (log E p w) \<and> list_all smooth (log E (f a) u)"
  by simp

lemma write_del_inv:
  assumes "gorm_laws E V" "redis_laws E V" "cache_inv L F V w" "late V w'"
    and "on_exec E s w = (Inr n, u)" "addresses i s" "on_redis E (Del (task_key i)) u = (None, w')"
  shows "cache_inv L F V w'"
proof -
  have r: "run E (RedisDo (Del (task_key i)) Return) u = (None, w')"
    and x: "run E (GormExec s Return) w = (Inr n, u)" using assms(5,7) by simp_all
  have "coherent L F V w'"
    using assms(3) by (intro write_then_del [OF assms(1,2) _ assms(5-7)]) (simp add: cache_inv_def)
  moreover have "rows_wire V u"
    using assms(3) run_late [OF assms(1) r assms(4)]
    by (intro exec_wire [OF assms(1) _ _ _ assms(5,6)]) (simp_all add: cache_inv_def)
  ultimately show ?thesis
    using redis_rows(1) [OF assms(1,7)] run_early [OF assms(1) x] run_early [OF assms(1) r] assms(3)
    by (simp add: cache_inv_def rows_wire_def)
qed

lemma write_nothing_inv:
  assumes "gorm_laws E V" "redis_laws E V" "cache_inv L F V w"
    and "on_exec E s w = (Inr 0, w')" "addresses i s"
  shows "cache_inv L F V w'"
proof -
  have x: "run E (GormExec s Return) w = (Inr 0, w')" using assms(4) by simp
  show ?thesis
    using write_nothing [OF assms(1,2) _ assms(4,5)] row_write [OF assms(1,4,5)] assms(3)
      run_early [OF assms(1) x]
    by (simp add: cache_inv_def rows_wire_def)
qed

lemma MarkPending_inv:
  assumes "gorm_laws E V" "redis_laws E V" "cache_inv L F V w" "late V w'"
    and "run E (TaskService_MarkPending (production_service b) i) w = (r, w')"
    and "list_all smooth (log E (TaskService_MarkPending (production_service b) i) w)"
  shows "cache_inv L F V w'"
proof -
  let ?s = "Updates (IdIs i) [SetStatus TaskStatusPending]"
  obtain x u where x: "on_exec E ?s w = (x, u)" by fastforce
  with assms(6) obtain n where n: "x = Inr n"
    by (cases x) (auto simp: TaskService_MarkPending_def taskRepository_UpdateStatus_def Let_def)
  show ?thesis
  proof (cases "n = 0")
    case True
    with assms(5) x n have "w' = u"
      by (auto simp: TaskService_MarkPending_def taskRepository_UpdateStatus_def Let_def)
    with x n True write_nothing_inv [OF assms(1-3), of ?s w' i] show ?thesis by simp
  next
    case False
    with assms(5,6) x n have "on_redis E (Del (task_key i)) u = (None, w')"
      by (auto simp: TaskService_MarkPending_def taskRepository_UpdateStatus_def Let_def split: prod.splits)
    with x n write_del_inv [OF assms(1-4), of ?s n u i] show ?thesis by simp
  qed
qed

lemma BeginProcessing_inv:
  assumes "gorm_laws E V" "redis_laws E V" "cache_inv L F V w" "late V w'"
    and "run E (TaskService_BeginProcessing (production_service b) i) w = (r, w')"
    and "list_all smooth (log E (TaskService_BeginProcessing (production_service b) i) w)"
  shows "cache_inv L F V w'"
proof -
  let ?s = "Updates (CondAnd (IdIs i) (StatusIs TaskStatusPending)) [SetStatus TaskStatusProcessing]"
  obtain x u where x: "on_exec E ?s w = (x, u)" by fastforce
  with assms(6) obtain n where n: "x = Inr n"
    by (cases x) (auto simp: TaskService_BeginProcessing_def taskRepository_MarkProcessing_def)
  have ad: "addresses i ?s" by simp
  have "n \<in> {0, 1}" using row_write [OF assms(1) x [unfolded n] ad] by simp
  then consider "n = 0" | "n = 1" by blast
  then show ?thesis
  proof cases
    case 1
    with assms(5) x n have "w' = u"
      by (auto simp: TaskService_BeginProcessing_def taskRepository_MarkProcessing_def)
    with x n 1 write_nothing_inv [OF assms(1-3) _ ad, of w'] show ?thesis by simp
  next
    case 2
    with assms(5,6) x n have "on_redis E (Del (task_key i)) u = (None, w')"
      by (auto simp: TaskService_BeginProcessing_def taskRepository_MarkProcessing_def split: prod.splits)
    with x n write_del_inv [OF assms(1-4) _ ad, of n u] show ?thesis by simp
  qed
qed

lemma Delete_inv:
  assumes "gorm_laws E V" "redis_laws E V" "cache_inv L F V w" "late V w'"
    and "run E (TaskService_Delete (production_service b) i) w = (r, w')"
    and "list_all smooth (log E (TaskService_Delete (production_service b) i) w)"
  shows "cache_inv L F V w'"
proof -
  let ?s = "Delete (IdIs i)"
  obtain x u where x: "on_exec E ?s w = (x, u)" by fastforce
  with assms(6) obtain n where n: "x = Inr n"
    by (cases x) (auto simp: TaskService_Delete_def taskRepository_Delete_def)
  show ?thesis
  proof (cases "n = 0")
    case True
    with assms(5) x n have "w' = u" by (auto simp: TaskService_Delete_def taskRepository_Delete_def)
    with x n True write_nothing_inv [OF assms(1-3), of ?s w' i] show ?thesis by simp
  next
    case False
    with assms(5,6) x n have "on_redis E (Del (task_key i)) u = (None, w')"
      by (auto simp: TaskService_Delete_def taskRepository_Delete_def split: prod.splits)
    with x n write_del_inv [OF assms(1-4), of ?s n u i] show ?thesis by simp
  qed
qed

text \<open>Reading a row and storing its JSON form in the cache.\<close>

lemma cacheSet_inv:
  assumes "gorm_laws E V" "redis_laws E V" "rows_wire V w" "early V w"
    and "\<forall>j. j \<noteq> i \<and> j \<notin> F \<longrightarrow> entry_ok L (rows V w) (kv V w) j" "rows V w i = Some t"
    and "run E (TaskService_cacheSet L (task_key i) t) w = (r, w')"
    and "list_all smooth (log E (TaskService_cacheSet L (task_key i) t) w)"
  shows "cache_inv L F V w' \<and> rows V w' = rows V w"
proof -
  have "task_wire_ok t" using assms(3,6) by (simp add: rows_wire_def)
  then obtain raw where raw: "marshal_task L t = Inr raw"
    by (auto simp: marshal_task_def marshal_time_def task_wire_ok_def)
  with assms(7,8) have s: "on_redis E (Set (task_key i) raw (5 * minute)) w = (None, w')"
    by (auto simp: TaskService_cacheSet_def split: prod.splits)
  have "coherent L F V w'" by (rule read_then_set [OF assms(1,2,5,6) raw s])
  with redis_rows(1) [OF assms(1) s] run_early [OF assms(1,7,4)] assms(3) show ?thesis
    by (simp add: cache_inv_def rows_wire_def)
qed

lemma first_row:
  assumes "gorm_laws E V" "on_first E (IdIs i) w = (r, w')"
  shows "rows V w' = rows V w" "r = Inr t \<Longrightarrow> rows V w i = Some t"
    "r = Inl e \<Longrightarrow> errors_Is e ErrRecordNotFound \<Longrightarrow> rows V w i = None"
proof -
  have a: "answers E w (EFirst (IdIs i) r) w'" using assms(2) by simp
  note g = gorm_rel [OF assms(1) a] and ok = gorm_table_ok [OF assms(1), of w]
  show "rows V w' = rows V w" using g by (cases r) simp_all
  show "r = Inr t \<Longrightarrow> rows V w i = Some t" using g by auto
  show "r = Inl e \<Longrightarrow> errors_Is e ErrRecordNotFound \<Longrightarrow> rows V w i = None"
    using g by (auto simp: matching_id [OF ok] split: if_splits)
qed

lemma Get_inv:
  assumes "gorm_laws E V" "redis_laws E V" "cache_inv L F V w"
    and "run E (TaskService_Get L (production_service b) i) w = (r, w')"
    and "list_all smooth (log E (TaskService_Get L (production_service b) i) w)"
  shows "cache_inv L F V w' \<and> rows V w' = rows V w"
proof -
  obtain g u where g: "on_get E (task_key i) w = (g, u)" by fastforce
  have gr: "run E (RedisGet (task_key i) Return) w = (g, u)" using g by simp
  have u: "cache_inv L F V u" "rows V u = rows V w"
    using assms(3) redis_rows(2) [OF assms(1) g] get_lossy(1) [OF assms(2) g]
      coherent_mono [of L F V w u] run_early [OF assms(1) gr]
    by (simp_all add: cache_inv_def rows_wire_def)
  show ?thesis
  proof (cases "\<exists>raw t. g = Inr raw \<and> unmarshal_task L raw = Inr t")
    case True
    then have "w' = u" using assms(4) g by (auto simp: TaskService_Get_def Let_def)
    with u show ?thesis by simp
  next
    case False
    obtain x v where x: "on_first E (IdIs i) u = (x, v)" by fastforce
    have xr: "run E (GormFirst (IdIs i) Return) u = (x, v)" using x by simp
    have v: "cache_inv L F V v" "rows V v = rows V w"
      using u first_row(1) [OF assms(1) x] db_kv(2) [OF assms(2) x] coherent_mono [of L F V u v]
        run_early [OF assms(1) xr] by (simp_all add: cache_inv_def rows_wire_def)
    show ?thesis
    proof (cases x)
      case (Inl e)
      then have "w' = v"
        using False assms(4) g x
        by (auto simp: TaskService_Get_def Let_def taskRepository_GetByID_def split: sum.splits if_splits)
      with v show ?thesis by simp
    next
      case (Inr t)
      then have s: "run E (TaskService_cacheSet L (task_key i) t) v = ((), w')"
        "list_all smooth (log E (TaskService_cacheSet L (task_key i) t) v)"
        using False assms(4,5) g x
        by (auto simp: TaskService_Get_def Let_def taskRepository_GetByID_def split: sum.splits prod.splits)
      have "rows V v i = Some t" using first_row(1,2) [OF assms(1) x] Inr by simp
      moreover have "rows_wire V v" "early V v" "\<forall>j. j \<noteq> i \<and> j \<notin> F \<longrightarrow> entry_ok L (rows V v) (kv V v) j"
        using v(1) by (simp_all add: cache_inv_def coherent_def)
      ultimately show ?thesis using cacheSet_inv [OF assms(1,2) _ _ _ _ s] v(2) by simp
    qed
  qed
qed

lemma ApplySummary_inv:
  assumes "gorm_laws E V" "redis_laws E V" "cache_inv L F V w" "late V w'"
    and "run E (TaskService_ApplySummary L (production_service b) i sm) w = (r, w')"
    and "list_all smooth (log E (TaskService_ApplySummary L (production_service b) i sm) w)"
  shows "cache_inv L F V w'"
proof -
  let ?s = "Updates (IdIs i) ([SetStatus TaskStatusCompleted] @ (if sm \<noteq> '''' then [SetSummary sm] else []))"
  have ad: "addresses i ?s" by simp
  obtain x u where x: "on_exec E ?s w = (x, u)" by fastforce
  with assms(6) obtain n where n: "x = Inr n"
    by (cases x) (auto simp: TaskService_ApplySummary_def taskRepository_UpdateStatus_def Let_def)
  show ?thesis
  proof (cases "n = 0")
    case True
    with assms(5) x n have "w' = u"
      by (auto simp: TaskService_ApplySummary_def taskRepository_UpdateStatus_def Let_def)
    with x n True write_nothing_inv [OF assms(1-3) _ ad, of w'] show ?thesis by simp
  next
    case False
    let ?rest = "pbind (taskRepository_GetByID i) (\<lambda>r. case r of
        Inr t \<Rightarrow> pbind (TaskService_cacheSet L (task_key i) t) (\<lambda>_. Return (None :: goerror option))
      | Inl err \<Rightarrow> Return None)"
    have rest: "run E ?rest u = (r, w')" "list_all smooth (log E ?rest u)"
      using assms(5,6) x n False
      by (simp_all add: TaskService_ApplySummary_def taskRepository_UpdateStatus_def Let_def)
    have xr: "run E (GormExec ?s Return) w = (Inr n, u)" using x n by simp
    have wire: "rows_wire V u"
      using exec_wire [OF assms(1) _ _ run_late [OF assms(1) rest(1) assms(4)] x [unfolded n] ad] assms(3)
      by (simp add: cache_inv_def)
    have early: "early V u" using run_early [OF assms(1) xr] assms(3) by (simp add: cache_inv_def)
    obtain ts where ts: "n = affected ?s (rows V w)" "rows V u = stmt_effect ts ?s (rows V w)"
      using assms(1) x [unfolded n] by (rule exec_Inr)
    have row: "rows V u i \<noteq> None"
      using ts False by (auto simp: law_simps gorm_table_ok [OF assms(1)] split: option.splits if_splits)
    have others: "\<forall>j. j \<noteq> i \<and> j \<notin> F \<longrightarrow> entry_ok L (rows V u) (kv V u) j"
    proof (intro allI impI)
      fix j assume j: "j \<noteq> i \<and> j \<notin> F"
      then have "rows V u j = rows V w j" using row_write [OF assms(1) x [unfolded n] ad] by simp
      with assms(3) j db_kv(1) [OF assms(2) x] show "entry_ok L (rows V u) (kv V u) j"
        unfolding cache_inv_def coherent_def by (metis entry_ok_cong entry_ok_mono)
    qed
    obtain y v where y: "on_first E (IdIs i) u = (y, v)" by fastforce
    then have "smooth (EFirst (IdIs i) y)" using rest(2) by (simp add: taskRepository_GetByID_def)
    then obtain t where t: "y = Inr t"
      using first_row(3) [OF assms(1) y] row by (cases y) auto
    have yr: "run E (GormFirst (IdIs i) Return) u = (y, v)" using y by simp
    have "rows V v i = Some t" using first_row(1,2) [OF assms(1) y] t by simp
    moreover have "run E (TaskService_cacheSet L (task_key i) t) v = ((), w')"
      "list_all smooth (log E (TaskService_cacheSet L (task_key i) t) v)"
      using rest y t by (auto simp: taskRepository_GetByID_def split: prod.splits)
    moreover have "\<forall>j. j \<noteq> i \<and> j \<notin> F \<longrightarrow> entry_ok L (rows V v) (kv V v) j"
      using others first_row(1) [OF assms(1) y] db_kv(2) [OF assms(2) y] entry_ok_mono by simp blast
    moreover have "rows_wire V v" "early V v"
      using wire first_row(1) [OF assms(1) y] run_early [OF assms(1) yr early]
      by (simp_all add: rows_wire_def)
    ultimately show ?thesis using cacheSet_inv [OF assms(1,2)] by metis
  qed
qed

lemma create_row_inv:
  assumes "gorm_laws E V" "redis_laws E V" "cache_inv L F V w" "late V w'"
    and "uuid_wf (ID t)" "DeletedAt t = None" "CreatedAt t = time_zero" "UpdatedAt t = time_zero"
    and "on_create E t w = (x, w')"
  shows "cache_inv L F V w'"
proof -
  have a: "answers E w (ECreate t x) w'" using assms(9) by simp
  have r: "run E (GormCreate t Return) w = (x, w')" using assms(9) by simp
  have early: "early V w" "early V w'" using assms(3) run_early [OF assms(1) r] by (simp_all add: cache_inv_def)
  have kv: "kv V w' \<subseteq>\<^sub>m kv V w"
    by (rule kv_frame [OF assms(2), of "GormCreate t Return" w x w']) (use assms(9) in simp_all)
  consider "rows V w' = rows V w"
    | ts row where "clk V w \<le> ts" "ts \<le> clk V w'" "stored_as (stamp ts t) row"
        "rows V w (ID t) = None" "rows V w' = (rows V w)(ID t \<mapsto> row)"
    using gorm_rel [OF assms(1) a] assms(6) by (cases x) auto
  then show ?thesis
  proof cases
    case 1
    with kv early assms(3) coherent_mono [of L F V w w'] show ?thesis
      by (simp add: cache_inv_def rows_wire_def)
  next
    case 2
    obtain c u where row: "row = (stamp ts t)\<lparr>CreatedAt := c, UpdatedAt := u\<rparr>"
      and "ts - 1000 < c" "c \<le> ts" "ts - 1000 < u" "u \<le> ts"
      using 2(3) assms(7,8) by (auto simp: stored_as_def truncated_def stamp_def)
    then have "time_in_range c" "time_in_range u"
      using 2(1,2) early(1) assms(4) by (simp_all add: time_in_range_def early_def late_def)
    then have "task_wire_ok row"
      unfolding row using assms(5,6) by (simp add: task_wire_ok_def)
    moreover have "coherent L F V w'"
      unfolding coherent_def
    proof (intro allI impI)
      fix j assume "j \<notin> F"
      then have "entry_ok L (rows V w) (kv V w) j" using assms(3) by (simp add: cache_inv_def coherent_def)
      then have "entry_ok L (rows V w') (kv V w) j"
        using 2(4,5) by (auto simp: entry_ok_def split: option.splits)
      then show "entry_ok L (rows V w') (kv V w') j" using kv by (rule entry_ok_mono)
    qed
    ultimately show ?thesis
      using early assms(3) 2(5) by (simp add: cache_inv_def rows_wire_def)
  qed
qed

lemma emit_frame:
  "only (\<lambda>ev. \<not> write_event ev \<and> \<not> redis_event ev) (event_New L ty p)"
  "only (\<lambda>ev. \<not> write_event ev \<and> \<not> redis_event ev) (Broker_Publish b key body)"
  "only (\<lambda>ev. \<not> write_event ev \<and> \<not> redis_event ev) (TaskService_emitCreated L (production_service b) t)"
  by (auto simp: event_New_def marshal_created_def Broker_Publish_def TaskService_emitCreated_def
      intro!: only_pbind split: sum.split option.split)

lemma Create_inv:
  assumes "gorm_laws E V" "redis_laws E V" "clock_laws E V" "cache_inv L F V w" "late V w'"
    and "run E (TaskService_Create L (production_service b) inp) w = (r, w')"
  shows "cache_inv L F V w'"
proof (cases "CreateTaskInput_validate inp")
  case (Some e)
  with assms(4,6) show ?thesis by (simp add: TaskService_Create_def)
next
  case None
  let ?t = "\<lambda>u. zero_task\<lparr>ID := u, Title := in_Title inp, Description := in_Description inp,
                         Status := TaskStatusPending\<rparr>"
  let ?rest = "\<lambda>x. case x of
      Inl err \<Rightarrow> Return (Inl (errorf ''create task'' err))
    | Inr t \<Rightarrow>
        pbind (event_New L RoutingTaskCreated (marshal_created (created_payload_of t)))
          (\<lambda>m. case m of
             Inl err \<Rightarrow> Return (Inr t)
           | Inr body \<Rightarrow> pbind (Broker_Publish b RoutingTaskCreated body) (\<lambda>err. Return (Inr t)))"
  obtain i u where i: "on_uuid E w = (i, u)" by fastforce
  obtain x v where x: "on_create E (?t i) u = (x, v)" by fastforce
  have rest: "run E (?rest x) v = (r, w')"
    using assms(6) None i x
    by (cases x) (simp_all add: TaskService_Create_def Let_def taskRepository_Create_def
        BeforeCreate_def zero_task_def)
  have wf: "uuid_wf i" using clock_rel [OF assms(3), of w "EUUID i" u] i by simp
  have ir: "run E (NewUUID Return) w = (i, u)" using i by simp
  have u: "cache_inv L F V u" using inv_frame [OF assms(1,2,4) _ ir] by simp
  have "cache_inv L F V v"
    by (rule create_row_inv [OF assms(1,2) u run_late [OF assms(1) rest assms(5)] _ _ _ _ x])
       (simp_all add: wf zero_task_def)
  moreover have "only (\<lambda>ev. \<not> write_event ev \<and> \<not> redis_event ev) (?rest x)"
    by (cases x) (auto intro!: only_pbind emit_frame split: sum.split)
  ultimately show ?thesis using inv_frame [OF assms(1,2) _ _ rest] by blast
qed

lemma Republish_inv:
  assumes "gorm_laws E V" "redis_laws E V" "cache_inv L F V w" "late V w'"
    and "run E (TaskService_RepublishCreated L' (production_service b) t) w = (r, w')"
    and "list_all smooth (log E (TaskService_RepublishCreated L' (production_service b) t) w)"
  shows "cache_inv L F V w'"
proof (cases "Status t = TaskStatusProcessing")
  case True
  obtain m u where m: "run E (TaskService_MarkPending (production_service b) (ID t)) w = (m, u)"
    by fastforce
  have sm: "list_all smooth (log E (TaskService_MarkPending (production_service b) (ID t)) w)"
    using assms(6) True m by (simp add: TaskService_RepublishCreated_def)
  show ?thesis
  proof (cases m)
    case None
    with assms(5) True m have g: "run E (TaskService_emitCreated L' (production_service b) t) u = (r, w')"
      by (simp add: TaskService_RepublishCreated_def)
    have "cache_inv L F V u"
      by (rule MarkPending_inv [OF assms(1-3) run_late [OF assms(1) g assms(4)] m sm])
    then show ?thesis using inv_frame [OF assms(1,2) _ emit_frame(3) g] by simp
  next
    case (Some e)
    with assms(5) True m have "w' = u" by (simp add: TaskService_RepublishCreated_def)
    with MarkPending_inv [OF assms(1-3) _ m sm] assms(4) show ?thesis by simp
  qed
next
  case False
  with assms(5) have g: "run E (TaskService_emitCreated L' (production_service b) t) w = (r, w')"
    by (simp add: TaskService_RepublishCreated_def)
  from inv_frame [OF assms(1-3) emit_frame(3) g] show ?thesis by simp
qed

text \<open>
  \<^verbatim>\<open>MarkFailed\<close> writes the row and leaves the entry, so the task joins those whose entry may
  be out of date.
\<close>

lemma cache_inv_mono: "cache_inv L F V w \<Longrightarrow> F \<subseteq> F' \<Longrightarrow> cache_inv L F' V w"
  by (auto simp: cache_inv_def coherent_def)

lemma MarkFailed_inv:
  assumes "gorm_laws E V" "redis_laws E V" "cache_inv L F V w" "late V w'"
    and "run E (TaskService_MarkFailed (production_service b) i) w = (r, w')"
    and "list_all smooth (log E (TaskService_MarkFailed (production_service b) i) w)"
  shows "cache_inv L (insert i F) V w'"
proof -
  let ?s = "Updates (IdIs i) [SetStatus TaskStatusFailed]"
  obtain x u where x: "on_exec E ?s w = (x, u)" by fastforce
  with assms(6) obtain n where n: "x = Inr n"
    by (cases x) (auto simp: TaskService_MarkFailed_def taskRepository_UpdateStatus_def Let_def)
  have u: "w' = u"
    using assms(5) x n
    by (auto simp: TaskService_MarkFailed_def taskRepository_UpdateStatus_def Let_def split: if_splits)
  have x': "on_exec E ?s w = (Inr n, w')" using x n u by simp
  then have xr: "run E (GormExec ?s Return) w = (Inr n, w')" by simp
  have "entry_ok L (rows V w') (kv V w') j" if "j \<notin> insert i F" for j
  proof -
    have "rows V w' j = rows V w j" using row_write [OF assms(1) x', of i] that by simp
    moreover have "entry_ok L (rows V w) (kv V w) j"
      using assms(3) that by (simp add: cache_inv_def coherent_def)
    ultimately show ?thesis
      using db_kv(1) [OF assms(2) x'] entry_ok_cong [of "rows V w'" j "rows V w"] entry_ok_mono by metis
  qed
  moreover have "rows_wire V w'"
    using exec_wire [OF assms(1) _ _ assms(4) x', of i] assms(3) by (simp add: cache_inv_def)
  moreover have "early V w'" using run_early [OF assms(1) xr] assms(3) by (simp add: cache_inv_def)
  ultimately show ?thesis by (simp add: cache_inv_def coherent_def)
qed

section \<open>Sequences of use cases\<close>

text \<open>Every method of the task service.\<close>

datatype use_case =
    CreateCase create_input
  | GetCase uuid
  | ListCase int int
  | DeleteCase uuid
  | BeginCase uuid
  | ApplyCase uuid string
  | PendingCase uuid
  | StaleCase int int int
  | RepublishCase task
  | FailCase uuid

primrec use_case_prog :: "lib \<Rightarrow> task_service \<Rightarrow> use_case \<Rightarrow> unit prog" where
  "use_case_prog L s (CreateCase inp) = forget (TaskService_Create L s inp)"
| "use_case_prog L s (GetCase i) = forget (TaskService_Get L s i)"
| "use_case_prog L s (ListCase limit offset) = forget (TaskService_List s limit offset)"
| "use_case_prog L s (DeleteCase i) = forget (TaskService_Delete s i)"
| "use_case_prog L s (BeginCase i) = forget (TaskService_BeginProcessing s i)"
| "use_case_prog L s (ApplyCase i sm) = forget (TaskService_ApplySummary L s i sm)"
| "use_case_prog L s (PendingCase i) = forget (TaskService_MarkPending s i)"
| "use_case_prog L s (StaleCase pb qb n) = forget (TaskService_FindStale s pb qb n)"
| "use_case_prog L s (RepublishCase t) = forget (TaskService_RepublishCreated L s t)"
| "use_case_prog L s (FailCase i) = forget (TaskService_MarkFailed s i)"

primrec use_cases :: "lib \<Rightarrow> task_service \<Rightarrow> use_case list \<Rightarrow> unit prog" where
  "use_cases L s [] = Return ()"
| "use_cases L s (x # xs) = pbind (use_case_prog L s x) (\<lambda>_. use_cases L s xs)"

text \<open>The tasks that a use case, or a sequence of them, marks as failed.\<close>

primrec marks_failed :: "use_case \<Rightarrow> uuid set" where
  "marks_failed (CreateCase inp) = {}"
| "marks_failed (GetCase i) = {}"
| "marks_failed (ListCase limit offset) = {}"
| "marks_failed (DeleteCase i) = {}"
| "marks_failed (BeginCase i) = {}"
| "marks_failed (ApplyCase i sm) = {}"
| "marks_failed (PendingCase i) = {}"
| "marks_failed (StaleCase pb qb n) = {}"
| "marks_failed (RepublishCase t) = {}"
| "marks_failed (FailCase i) = {i}"

lemma marks_failed_iff: "i \<in> marks_failed x \<longleftrightarrow> x = FailCase i"
  by (cases x) auto

lemma forget_run: "run E (forget p) w = (case run E p w of (a, w') \<Rightarrow> ((), w'))"
  by (simp add: forget_def split: prod.split)

lemma forget_log: "log E (forget p) w = log E p w"
  by (simp add: forget_def split: prod.split)

lemma use_case_inv:
  assumes "gorm_laws E V" "redis_laws E V" "clock_laws E V" "cache_inv L F V w" "late V w'"
    and "run E (use_case_prog L (production_service b) x) w = (u, w')"
    and "list_all smooth (log E (use_case_prog L (production_service b) x) w)"
  shows "cache_inv L (marks_failed x \<union> F) V w'"
proof (cases x)
  case (CreateCase inp)
  with assms(6) show ?thesis
    by (auto simp: forget_run split: prod.splits intro: Create_inv [OF assms(1-5)])
next
  case (GetCase i)
  with assms(6,7) show ?thesis
    by (auto simp: forget_run forget_log split: prod.splits dest: Get_inv [OF assms(1,2,4)])
next
  case (ListCase limit offset)
  have "only (\<lambda>ev. \<not> write_event ev \<and> \<not> redis_event ev)
      (TaskService_List (production_service b) limit offset)"
    by (simp add: TaskService_List_def taskRepository_List_def Let_def split: sum.split)
  with ListCase assms(6) show ?thesis
    by (auto simp: forget_run split: prod.splits dest: inv_frame [OF assms(1,2,4)])
next
  case (DeleteCase i)
  with assms(6,7) show ?thesis
    by (auto simp: forget_run forget_log split: prod.splits intro: Delete_inv [OF assms(1,2,4,5)])
next
  case (BeginCase i)
  with assms(6,7) show ?thesis
    by (auto simp: forget_run forget_log split: prod.splits intro: BeginProcessing_inv [OF assms(1,2,4,5)])
next
  case (ApplyCase i sm)
  with assms(6,7) show ?thesis
    by (auto simp: forget_run forget_log split: prod.splits intro: ApplySummary_inv [OF assms(1,2,4,5)])
next
  case (PendingCase i)
  with assms(6,7) show ?thesis
    by (auto simp: forget_run forget_log split: prod.splits intro: MarkPending_inv [OF assms(1,2,4,5)])
next
  case (StaleCase pb qb n)
  have "only (\<lambda>ev. \<not> write_event ev \<and> \<not> redis_event ev)
      (TaskService_FindStale (production_service b) pb qb n)"
    by (simp add: TaskService_FindStale_def taskRepository_FindStale_def Let_def split: sum.split)
  with StaleCase assms(6) show ?thesis
    by (auto simp: forget_run split: prod.splits dest: inv_frame [OF assms(1,2,4)])
next
  case (RepublishCase t)
  with assms(6,7) show ?thesis
    by (auto simp: forget_run forget_log split: prod.splits intro: Republish_inv [OF assms(1,2,4,5)])
next
  case (FailCase i)
  with assms(6,7) show ?thesis
    by (auto simp: forget_run forget_log split: prod.splits dest: MarkFailed_inv [OF assms(1,2,4,5)])
qed

lemma use_cases_inv:
  assumes "gorm_laws E V" "redis_laws E V" "clock_laws E V" "late V w'"
  shows "cache_inv L F V w \<Longrightarrow> run E (use_cases L (production_service b) xs) w = (u, w') \<Longrightarrow>
         list_all smooth (log E (use_cases L (production_service b) xs) w) \<Longrightarrow>
         cache_inv L (\<Union> (marks_failed ` set xs) \<union> F) V w'"
proof (induction xs arbitrary: w F)
  case (Cons x xs)
  obtain v where v: "run E (use_case_prog L (production_service b) x) w = ((), v)"
    by (cases "run E (use_case_prog L (production_service b) x) w") auto
  with Cons.prems have rest: "run E (use_cases L (production_service b) xs) v = (u, w')"
    "list_all smooth (log E (use_cases L (production_service b) xs) v)"
    "list_all smooth (log E (use_case_prog L (production_service b) x) w)" by simp_all
  have "cache_inv L (marks_failed x \<union> F) V v"
    by (rule use_case_inv [OF assms(1-3) Cons.prems(1) run_late [OF assms(1) rest(1) assms(4)] v rest(3)])
  from Cons.IH [OF this rest(1,2)] show ?case by (rule cache_inv_mono) auto
qed simp

lemma run_then: "run E p w = (a, u) \<Longrightarrow> run E (pbind p f) w = run E (f a) u"
  by simp

lemma not_isl_Inr: "\<not> isl x \<Longrightarrow> (\<And>t. x = Inr t \<Longrightarrow> P) \<Longrightarrow> P"
  by (cases x) auto

section \<open>Properties\<close>



text \<open>
  C34: Marking a task as failed leaves a stale entry. \<^verbatim>\<open>MarkFailed\<close> makes no Redis call,
  so if Redis loses nothing and holds a readable entry for the task, then after a successful
  \<^verbatim>\<open>MarkFailed\<close> the row is failed while a \<^verbatim>\<open>Get\<close> that Redis answers still returns
  the entry's task.
\<close>

theorem MarkFailed_leaves_stale_entry:
  assumes "gorm_laws E V" and "redis_durable E V"
    and "kv V w (task_key i) = Some raw" and "unmarshal_task L raw = Inr t"
    and "run E (TaskService_MarkFailed (production_service b) i) w = (None, u)"
    and "on_get E (task_key i) u = (Inr raw', v)"
  shows "map_option Status (rows V u i) = Some TaskStatusFailed \<and>
         fst (run E (TaskService_Get L (production_service b) i) u) = Inr t"
proof -
  have r: "run E (repo_UpdateStatus NewTaskRepository i TaskStatusFailed '''') w = (None, u)"
    using assms(5) by (simp add: TaskService_MarkFailed_def)
  from gorm_store.status_set [OF assms(1) r] have "map_option Status (store V u i) = Some TaskStatusFailed"
    by auto
  then have st: "map_option Status (rows V u i) = Some TaskStatusFailed"
    by (simp only: store_status_of)
  have "kv V u = kv V w"
    by (rule kv_frame_durable [OF assms(2) _ r])
       (simp add: taskRepository_UpdateStatus_def Let_def split: sum.split)
  moreover have "kv V u (task_key i) = Some raw'"
    by (rule get_lossy(2) [OF redis_durable_laws [OF assms(2)] assms(6) refl])
  ultimately have "raw' = raw" using assms(3) by simp
  with assms(4,6) st show ?thesis by (simp add: TaskService_Get_def Let_def)
qed

theorem MarkFailed_leaves_stale_entry_witness:
  "\<exists>u t. run mem_env (TaskService_MarkFailed (production_service sample_broker) sample_id)
           ((mem_with [sample_task TaskStatusPending])\<lparr>m_kv :=
              [task_key sample_id \<mapsto> Json (JObj [(''status'', JStr ''pending'')])]\<rparr>) = (None, u) \<and>
         map_option Status (mem_rows u sample_id) = Some TaskStatusFailed \<and>
         fst (run mem_env (TaskService_Get mem_lib (production_service sample_broker) sample_id) u) =
           Inr t \<and> Status t = TaskStatusPending"
proof -
  let ?raw = "Json (JObj [(''status'', JStr ''pending'')])"
  let ?w = "(mem_with [sample_task TaskStatusPending])\<lparr>m_kv := [task_key sample_id \<mapsto> ?raw]\<rparr>"
  let ?t = "zero_task\<lparr>Status := TaskStatusPending\<rparr>"
  let ?p = "TaskService_MarkFailed (production_service sample_broker) sample_id"
  have "fst (run mem_env ?p ?w) = None" by code_simp
  note r = run_fst [OF this]
  have k: "kv mem_view ?w (task_key sample_id) = Some ?raw" by simp
  have t: "unmarshal_task mem_lib ?raw = Inr ?t"
    by (simp add: unmarshal_task_def unmarshal_struct_def assign_task_def task_tags_def
        TaskStatusPending_def)
  have "fst (on_get mem_env (task_key sample_id) (snd (run mem_env ?p ?w))) = Inr ?raw" by code_simp
  then have g: "on_get mem_env (task_key sample_id) (snd (run mem_env ?p ?w)) =
      (Inr ?raw, snd (on_get mem_env (task_key sample_id) (snd (run mem_env ?p ?w))))"
    by (simp add: prod_eq_iff)
  from MarkFailed_leaves_stale_entry [OF mem_gorm_laws mem_redis_durable k t r g] r
  show ?thesis by (intro exI [of _ "snd (run mem_env ?p ?w)"] exI [of _ ?t]) simp
qed

section \<open>Creating and listing\<close>

definition acceptable :: "create_input \<Rightarrow> bool" where
  "acceptable inp \<longleftrightarrow>
     in_Title inp \<noteq> '''' \<and> length (in_Title inp) \<le> 255 \<and> length (in_Description inp) \<le> 20000"

definition pending_from :: "create_input \<Rightarrow> task \<Rightarrow> bool" where
  "pending_from inp t \<longleftrightarrow>
     Title t = in_Title inp \<and> Description t = in_Description inp \<and>
     Status t = TaskStatusPending \<and> Summary t = '''' \<and> DeletedAt t = None"

definition adds_row :: "'w view \<Rightarrow> task \<Rightarrow> 'w \<Rightarrow> 'w \<Rightarrow> bool" where
  "adds_row V t w w' \<longleftrightarrow>
     store V w (ID t) = None \<and> store V w' = (store V w)(ID t \<mapsto> erase t)"

lemma validate_acceptable:
  "case CreateTaskInput_validate inp of
     None \<Rightarrow> acceptable inp | Some e \<Rightarrow> \<not> acceptable inp \<and> errors_Is e ErrInvalidInput"
  by (simp add: CreateTaskInput_validate_def acceptable_def)

lemma Create_rejected:
  assumes "CreateTaskInput_validate inp = None"
    and "run E (TaskService_Create L (production_service b) inp) w = (Inl e, w')"
  shows "run E (taskRepository_Create (zero_task\<lparr>Title := in_Title inp,
            Description := in_Description inp, Status := TaskStatusPending\<rparr>)) w = (Inl e, w') \<and>
         log E (TaskService_Create L (production_service b) inp) w =
         log E (taskRepository_Create (zero_task\<lparr>Title := in_Title inp,
            Description := in_Description inp, Status := TaskStatusPending\<rparr>)) w"
proof -
  let ?t = "zero_task\<lparr>Title := in_Title inp, Description := in_Description inp,
                      Status := TaskStatusPending\<rparr>"
  obtain x u where x: "run E (taskRepository_Create ?t) w = (x, u)" by fastforce
  show ?thesis
  proof (cases x)
    case (Inl e')
    with assms x show ?thesis by (simp add: TaskService_Create_def)
  next
    case (Inr t)
    obtain y v where y: "run E (event_New L RoutingTaskCreated (marshal_created (created_payload_of t))) u = (y, v)"
      by fastforce
    have False using assms x Inr y
      by (cases y) (auto simp: TaskService_Create_def split: prod.splits)
    then show ?thesis ..
  qed
qed

lemma Create_store_cases:
  assumes "gorm_laws E V"
    and "run E (TaskService_Create L (production_service b) inp) w = (r, w')"
  shows "if acceptable inp then
           (case r of
              Inr t \<Rightarrow> pending_from inp t \<and> adds_row V t w w'
            | Inl e \<Rightarrow> store V w' = store V w \<or> (\<exists>t. pending_from inp t \<and> adds_row V t w w'))
         else (\<exists>e. r = Inl e \<and> errors_Is e ErrInvalidInput) \<and> w' = w"
proof (cases "CreateTaskInput_validate inp")
  case None
  then have ok: "acceptable inp" using validate_acceptable [of inp] by simp
  show ?thesis
  proof (cases r)
    case (Inr t)
    with stack.Create_store [OF assms(1)] assms(2) ok show ?thesis
      by (auto simp: pending_from_def adds_row_def)
  next
    case (Inl e)
    let ?t = "zero_task\<lparr>Title := in_Title inp, Description := in_Description inp,
                        Status := TaskStatusPending\<rparr>"
    from Create_rejected [OF None assms(2) [unfolded Inl]]
    have c: "run E (repo_Create NewTaskRepository ?t) w = (Inl e, w')" by simp
    have "pending_from inp t'" if "created_from ?t t'" for t'
      using that by (simp add: created_from_def pending_from_def zero_task_def)
    moreover have "DeletedAt ?t = None" by (simp add: zero_task_def)
    ultimately have "store V w' = store V w \<or> (\<exists>t. pending_from inp t \<and> adds_row V t w w')"
      using gorm_store.create [OF assms(1) _ c] by (auto simp: adds_row_def)
    then show ?thesis using Inl ok by simp
  qed
next
  case (Some e)
  with assms(2) validate_acceptable [of inp] show ?thesis by (auto simp: TaskService_Create_def)
qed

lemma Create_error_quiet:
  assumes "CreateTaskInput_validate inp = None"
    and "run E (TaskService_Create L (production_service b) inp) w = (Inl e, w')"
  shows "list_all (\<lambda>ev. \<not> amqp_event ev) (log E (TaskService_Create L (production_service b) inp) w)"
proof -
  let ?t = "zero_task\<lparr>Title := in_Title inp, Description := in_Description inp,
                      Status := TaskStatusPending\<rparr>"
  from Create_rejected [OF assms] have "log E (TaskService_Create L (production_service b) inp) w =
      log E (repo_Create NewTaskRepository ?t) w" by simp
  moreover have "list_all (\<lambda>ev. \<not> amqp_event ev) (log E (repo_Create NewTaskRepository ?t) w)"
    unfolding list_all_iff
    by (intro ballI store_event_kinds(2)) (erule only_log [OF gorm_store.calls(1)])
  ultimately show ?thesis by simp
qed

text \<open>
  C13: Creating a task. Input with a title of 1 to 255 bytes and a description of at most
  20000 is stored as one new row, pending, with exactly this title and description, before the
  use case reports success, and whether or not the event could be encoded or published. If it
  reports an error, then nothing was published, and no row but possibly this one was added (the
  database may have committed before the connection failed). Any other input is refused as
  invalid without a call to any service.
\<close>

theorem Create_stores_pending:
  assumes "gorm_laws E V"
    and "run E (TaskService_Create L (production_service b) inp) w = (r, w')"
  shows "if acceptable inp then
           (case r of
              Inr t \<Rightarrow> pending_from inp t \<and> adds_row V t w w'
            | Inl e \<Rightarrow>
                (store V w' = store V w \<or> (\<exists>t. pending_from inp t \<and> adds_row V t w w')) \<and>
                list_all (\<lambda>ev. \<not> amqp_event ev)
                  (log E (TaskService_Create L (production_service b) inp) w))
         else (\<exists>e. r = Inl e \<and> errors_Is e ErrInvalidInput) \<and> w' = w"
proof (cases "CreateTaskInput_validate inp")
  case None
  then have "acceptable inp" using validate_acceptable [of inp] by simp
  with Create_store_cases [OF assms] Create_error_quiet [OF None, of E L b w] assms(2)
  show ?thesis by (cases r) simp_all
next
  case (Some e)
  then have "\<not> acceptable inp" using validate_acceptable [of inp] by simp
  with Create_store_cases [OF assms] show ?thesis by simp
qed

theorem Create_stores_pending_witness:
  "\<exists>t w'. run mem_env (TaskService_Create mem_lib (production_service sample_broker)
              \<lparr>in_Title = ''Write docs'', in_Description = ''''\<rparr>) (mem_with []) = (Inr t, w') \<and>
          Status t = TaskStatusPending \<and> adds_row mem_view t (mem_with []) w'"
proof -
  let ?i = "\<lparr>in_Title = ''Write docs'', in_Description = ''''\<rparr> :: create_input"
  let ?p = "TaskService_Create mem_lib (production_service sample_broker) ?i"
  have "\<not> isl (fst (run mem_env ?p (mem_with [])))" by code_simp
  then obtain t where "fst (run mem_env ?p (mem_with [])) = Inr t" by (rule not_isl_Inr)
  note r = run_fst [OF this]
  have "acceptable ?i" by (simp add: acceptable_def)
  with Create_stores_pending [OF mem_gorm_laws r] r show ?thesis
    by (auto simp: pending_from_def)
qed

text \<open>
  C33: Listing tasks. Whatever limit and offset the caller asks for, \<^verbatim>\<open>List\<close> without an
  error returns the number of live tasks and a page of different live tasks, newest first, as
  long as the limit, replaced by 20 when it is not between 1 and 100, allows after skipping
  the offset, taken as 0 when negative; so at most 100 tasks. It leaves the table unchanged.
\<close>

theorem List_page:
  assumes "gorm_laws E V"
    and "run E (TaskService_List (production_service b) limit offset) w = (Inr (ts, cnt), w')"
  shows "rows V w' = rows V w \<and> cnt = int (card (dom (rows V w))) \<and>
         distinct ts \<and> sorted (rev (map CreatedAt ts)) \<and>
         (\<forall>t \<in> set ts. rows V w (ID t) = Some t) \<and>
         length ts = min (if 1 \<le> limit \<and> limit \<le> 100 then nat limit else 20)
                         (card (dom (rows V w)) - nat offset) \<and>
         length ts \<le> 100"
proof -
  let ?l = "if limit \<le> 0 \<or> limit > 100 then 20 else limit"
  let ?o = "if offset < 0 then 0 else offset"
  have "run E (taskRepository_List ?l ?o) w = (Inr (ts, cnt), w')"
    using assms(2) by (simp add: TaskService_List_def)
  note page = repo_List_page [OF assms(1) _ this]
  have "length ts = min (nat ?l) (card (dom (rows V w)) - nat ?o)" using page by simp
  then have "length ts = min (if 1 \<le> limit \<and> limit \<le> 100 then nat limit else 20)
      (card (dom (rows V w)) - nat offset)" by simp
  moreover have "length ts \<le> 100" using calculation by (auto intro: min.coboundedI1 split: if_splits)
  ultimately show ?thesis using page by auto
qed

theorem List_page_witness:
  "\<exists>w'. run mem_env (TaskService_List (production_service sample_broker) 1000 (- 3))
            (mem_with [sample_task TaskStatusPending]) =
          (Inr ([sample_task TaskStatusPending], 1), w') \<and>
        mem_rows w' = mem_rows (mem_with [sample_task TaskStatusPending])"
proof -
  let ?w = "mem_with [sample_task TaskStatusPending]"
  have "fst (run mem_env (TaskService_List (production_service sample_broker) 1000 (- 3)) ?w) =
      Inr ([sample_task TaskStatusPending], 1)" by code_simp
  note r = run_fst [OF this]
  from List_page [OF mem_gorm_laws r] r show ?thesis by auto
qed

end
