(* ===== verification/Http_Api.thy ===== *)
theory Http_Api
  imports Http_Transport Service_Cache
begin

text \<open>
  Facts about the HTTP transport: what every stage of the chain keeps (locale
  \<open>stage\<close>), the shape of every response, the rate limiter, and what the status of a
  response says about the stored tasks.
\<close>

section \<open>The shape of a response\<close>

definition error_envelope :: "ctx \<Rightarrow> bool" where
  "error_envelope c \<longleftrightarrow>
     (\<exists>msg code rest. cx_body c =
        Some (Json (JObj ([(''error'', JStr msg), (''code'', JStr code)] @ rest @
          (if traceID c = '''' then [] else [(''trace_id'', JStr (traceID c))])))))"

definition replied :: "ctx \<Rightarrow> bool" where
  "replied c \<longleftrightarrow> cx_status c \<in> {200, 201, 204, 503} \<or> error_envelope c"

text \<open>What a stage of the chain may do with a context.\<close>

definition stage_post :: "ctx \<Rightarrow> completion \<times> ctx \<Rightarrow> bool" where
  "stage_post c out \<longleftrightarrow>
     (case out of (res, c') \<Rightarrow>
        cx_req c' = cx_req c \<and> cx_request_id c' = cx_request_id c \<and>
        cx_headers c' RequestIDHeader = cx_headers c RequestIDHeader \<and>
        (case res of
           Returned None \<Rightarrow> replied c'
         | Returned (Some e) \<Rightarrow> True
         | Panicked \<Rightarrow> False))"

text \<open>Until its end a chain starts with status 200.\<close>

definition handles :: "http_handler \<Rightarrow> bool" where
  "handles h \<longleftrightarrow> (\<forall>c. cx_status c = 200 \<longrightarrow> yields (stage_post c) (h c))"

locale stage =
  fixes mw :: middleware
  assumes keeps: "handles next \<Longrightarrow> handles (mw next)"

lemma header_names [simp]:
  "RequestIDHeader \<noteq> ''Content-Type''" "RequestIDHeader \<noteq> ''X-RateLimit-Limit''"
  "RequestIDHeader \<noteq> ''X-RateLimit-Remaining''" "RequestIDHeader \<noteq> ''Retry-After''"
  by (simp_all add: RequestIDHeader_def)

lemmas header_names_sym [simp] = header_names [THEN not_sym]

lemma fresh_ctx_simps [simp]:
  "cx_req (fresh_ctx rq) = rq" "cx_status (fresh_ctx rq) = 200"
  "cx_request_id (fresh_ctx rq) = None" "cx_headers (fresh_ctx rq) = Map.empty"
  by (simp_all add: fresh_ctx_def)

lemma set_header_simps [simp]:
  "cx_req (set_header n v c) = cx_req c" "cx_request_id (set_header n v c) = cx_request_id c"
  "cx_status (set_header n v c) = cx_status c" "cx_body (set_header n v c) = cx_body c"
  "cx_headers (set_header n v c) m = (if m = n then Some v else cx_headers c m)"
  by (simp_all add: set_header_def)

lemma traceID_simps [simp]:
  "traceID (set_header n v c) = traceID c" "traceID (c\<lparr>cx_status := s\<rparr>) = traceID c"
  "traceID (c\<lparr>cx_body := b\<rparr>) = traceID c"
  by (simp_all add: traceID_def)

lemma stage_post_set_header:
  "stage_post (set_header n v c) out \<Longrightarrow> n \<noteq> RequestIDHeader \<Longrightarrow> stage_post c out"
  by (auto simp: stage_post_def split: prod.splits)

lemma stage_post_error: "stage_post c (Returned (Some e), c)"
  by (simp add: stage_post_def)

lemma stage_post_JSON: "code \<in> {200, 201, 503} \<Longrightarrow> stage_post c (status_JSON code v c)"
  by (cases v) (auto simp: stage_post_def status_JSON_def replied_def)

lemma error_JSON:
  assumes "eb_TraceID b = traceID c"
  shows "case status_JSON code (marshal_error_body b) c of
           (res, c') \<Rightarrow> res = Returned None \<and> error_envelope c' \<and> cx_status c' = code \<and>
             cx_req c' = cx_req c \<and> cx_request_id c' = cx_request_id c \<and>
             cx_headers c' RequestIDHeader = cx_headers c RequestIDHeader"
proof -
  have "error_envelope (set_header ''Content-Type'' ''application/json''
      (c\<lparr>cx_status := code, cx_body := Some (Json (JObj
       ([(''error'', JStr (eb_Error b)), (''code'', JStr (eb_Code b))] @
        (if eb_Details b = '''' then [] else [(''details'', JStr (eb_Details b))]) @
        (if eb_TraceID b = '''' then [] else [(''trace_id'', JStr (eb_TraceID b))]))))\<rparr>))"
    unfolding error_envelope_def assms
    by (intro exI [of _ "eb_Error b"] exI [of _ "eb_Code b"]
        exI [of _ "if eb_Details b = '''' then [] else [(''details'', JStr (eb_Details b))]"]) simp
  then show ?thesis by (simp add: status_JSON_def marshal_error_body_def)
qed

lemma stage_post_error_JSON:
  "eb_TraceID b = traceID c \<Longrightarrow> stage_post c (status_JSON code (marshal_error_body b) c)"
  using error_JSON [of b c code] by (auto simp: stage_post_def replied_def split: prod.splits)

section \<open>Every stage meets the contract\<close>

lemma handlesI: "(\<And>c. cx_status c = 200 \<Longrightarrow> yields (stage_post c) (h c)) \<Longrightarrow> handles h"
  by (simp add: handles_def)

lemma handlesD: "handles h \<Longrightarrow> cx_status c = 200 \<Longrightarrow> yields (stage_post c) (h c)"
  by (simp add: handles_def)

lemma endpoint_stage: "handles h \<Longrightarrow> stage (endpoint h)"
  by unfold_locales simp

lemma NotFound_handles: "handles NotFound"
  by (rule handlesI) (simp add: NotFound_def stage_post_error_JSON)

lemma Create_handles: "handles (TaskHandler_Create L F svc)"
  by (rule handlesI)
     (auto simp: TaskHandler_Create_def stage_post_error stage_post_JSON split: sum.split
       intro!: yields_after)

lemma Get_handles: "handles (TaskHandler_Get L F svc)"
  by (rule handlesI)
     (auto simp: TaskHandler_Get_def ctx_JSON_def stage_post_error stage_post_JSON
       split: sum.split option.split intro!: yields_after)

lemma List_handles: "handles (TaskHandler_List L F svc)"
  by (rule handlesI)
     (auto simp: TaskHandler_List_def Let_def ctx_JSON_def stage_post_error stage_post_JSON
       split: sum.split intro!: yields_after)

lemma Delete_handles: "handles (TaskHandler_Delete L F svc)"
  by (rule handlesI)
     (auto simp: TaskHandler_Delete_def stage_post_error SendNoContent_def
       stage_post_def replied_def split: option.split intro!: yields_after)

lemma Live_handles: "handles Health_Live"
  by (rule handlesI) (simp add: Health_Live_def ctx_JSON_def stage_post_JSON)

lemma Ready_handles: "handles Health_Ready"
  by (rule handlesI) (auto simp: Health_Ready_def Let_def stage_post_JSON split: option.split)

lemma RateLimiter_stage: "stage (RateLimiter inc limit window)"
proof
  fix "next" assume n: "handles next"
  show "handles (RateLimiter inc limit window next)"
  proof (rule handlesI)
    fix c :: ctx assume c: "cx_status c = 200"
    have passed: "yields (stage_post c) (next (set_header x u (set_header y v c)))"
      if "x \<noteq> RequestIDHeader" "y \<noteq> RequestIDHeader" for x y u v
      by (rule yields_mono [OF handlesD [OF n]])
         (use that c in \<open>auto dest: stage_post_set_header\<close>)
    have refused: "stage_post c (status_JSON 429 (marshal_error_body b) (set_header z t (set_header x u (set_header y v c))))"
      if "eb_TraceID b = traceID c" "x \<noteq> RequestIDHeader" "y \<noteq> RequestIDHeader" "z \<noteq> RequestIDHeader"
      for b x y z t u v
      using stage_post_error_JSON [of b "set_header z t (set_header x u (set_header y v c))" 429] that
      by (auto dest!: stage_post_set_header)
    show "yields (stage_post c) (RateLimiter inc limit window next c)"
      unfolding RateLimiter_def Let_def
      by (rule yields_after)
         (use c passed refused in \<open>auto simp: handlesD [OF n] split: sum.split\<close>)
  qed
qed

interpretation limiter: stage "RateLimiter inc limit window" for inc limit window
  by (rule RateLimiter_stage)

lemma Recoverer_stage: "stage Recoverer"
proof
  fix "next" assume n: "handles next"
  show "handles (Recoverer next)"
    by (rule handlesI) (auto simp: Recoverer_def stage_post_def split: completion.split
        intro!: yields_pbind [OF handlesD [OF n]])
qed

interpretation recoverer: stage Recoverer
  by (rule Recoverer_stage)

section \<open>The whole chain\<close>

lemma run_routes_handles:
  "list_all (\<lambda>(key, mw). stage mw) rs \<Longrightarrow> handles (run_routes F rs)"
proof (induction rs)
  case Nil
  show ?case by (rule handlesI) (simp add: stage_post_error)
next
  case (Cons r rs)
  obtain key mw where r: "r = (key, mw)" by fastforce
  with Cons have "handles (run_routes F rs)" "handles (mw (run_routes F rs))"
    by (auto intro: stage.keeps)
  with r show ?case by (auto simp: handles_def)
qed

definition limited_deps ::
  "task_service \<Rightarrow> (string \<Rightarrow> int \<Rightarrow> (goerror + int) prog) \<Rightarrow> int \<Rightarrow> int \<Rightarrow> router_deps" where
  "limited_deps svc inc limit window =
     \<lparr>rd_TaskService = svc, rd_RateLimit = Some (RateLimiter inc limit window)\<rparr>"

lemma router_tail:
  "\<exists>rs. NewRouter L F (limited_deps svc inc limit window) =
          (UseAt ''/'', RequestID) # (UseAt ''/'', Recoverer) # rs \<and>
        list_all (\<lambda>(key, mw). stage mw) rs"
  by (simp add: NewRouter_def limited_deps_def Let_def limiter.stage_axioms endpoint_stage
      Live_handles Ready_handles Create_handles List_handles Get_handles Delete_handles
      NotFound_handles)

definition root_matches :: "fiber \<Rightarrow> bool" where
  "root_matches F \<longleftrightarrow> (\<forall>rq. fb_Matches F (UseAt ''/'') rq)"

text \<open>What the client of the whole application sees.\<close>

definition well_formed_response :: "request \<Rightarrow> ctx option \<Rightarrow> bool" where
  "well_formed_response rq r \<longleftrightarrow>
     (case r of
        None \<Rightarrow> False
      | Some c \<Rightarrow>
          cx_headers c RequestIDHeader = Some (traceID c) \<and>
          (if rq_header rq RequestIDHeader \<noteq> '''' then traceID c = rq_header rq RequestIDHeader
           else True) \<and>
          replied c)"

lemma error_reply_trace: "eb_TraceID (snd (error_reply d trace e)) = trace"
  by (simp add: error_reply_def Let_def split: option.split prod.split)

lemma ErrorHandler_reply:
  "case ErrorHandler d c e of
     (res, c') \<Rightarrow> res = Returned None \<and> error_envelope c' \<and>
       cx_status c' = fst (error_reply d (traceID c) e) \<and> cx_request_id c' = cx_request_id c \<and>
       cx_headers c' RequestIDHeader = cx_headers c RequestIDHeader"
proof -
  obtain code b where b: "error_reply d (traceID c) e = (code, b)" by fastforce
  with error_reply_trace [of d "traceID c" e] have "eb_TraceID b = traceID c" by simp
  with b error_JSON [of b "set_header ''Content-Type'' ''application/json'' c" code]
  show ?thesis by (auto simp: ErrorHandler_def split: prod.splits)
qed

lemma serve_well_formed:
  assumes "root_matches F"
  shows "yields (well_formed_response rq)
    (serve F d (NewRouter L F (limited_deps svc inc limit window)) rq)"
proof -
  obtain rs where rs: "NewRouter L F (limited_deps svc inc limit window) =
      (UseAt ''/'', RequestID) # (UseAt ''/'', Recoverer) # rs"
    and st: "list_all (\<lambda>(key, mw). stage mw) rs"
    using router_tail by blast
  let ?h = "Recoverer (run_routes F rs)"
  let ?c = "\<lambda>i. set_header RequestIDHeader i ((fresh_ctx rq)\<lparr>cx_request_id := Some i\<rparr>)"
  let ?fin = "\<lambda>(res, c). Return (case res of
                 Returned None \<Rightarrow> Some c
               | Returned (Some err) \<Rightarrow> Some (snd (ErrorHandler d c err))
               | Panicked \<Rightarrow> None)"
  have h: "handles ?h" by (rule recoverer.keeps [OF run_routes_handles [OF st]])
  have tail: "yields (well_formed_response rq) (pbind (?h (?c i)) ?fin)"
    if i: "rq_header rq RequestIDHeader \<noteq> '''' \<longrightarrow> i = rq_header rq RequestIDHeader" for i
  proof (rule yields_pbind [OF handlesD [OF h]])
    show "cx_status (?c i) = 200" by (simp add: fresh_ctx_def)
    fix out assume out: "stage_post (?c i) out"
    obtain res c where rc: "out = (res, c)" by fastforce
    with out have c: "cx_request_id c = Some i" "cx_headers c RequestIDHeader = Some i"
      by (simp_all add: stage_post_def)
    have t: "traceID c = i" using c by (simp add: traceID_def)
    show "yields (well_formed_response rq) (?fin out)"
    proof (cases res)
      case (Returned e)
      then show ?thesis
      proof (cases e)
        case None
        with out rc Returned c t i show ?thesis by (auto simp: stage_post_def well_formed_response_def)
      next
        case (Some err)
        with ErrorHandler_reply [of d c err] rc Returned c t i show ?thesis
          by (auto simp: well_formed_response_def replied_def traceID_def split: prod.splits)
      qed
    next
      case Panicked
      with out rc show ?thesis by (simp add: stage_post_def)
    qed
  qed
  have "run_routes F (NewRouter L F (limited_deps svc inc limit window)) (fresh_ctx rq) =
      RequestID ?h (fresh_ctx rq)"
    using assms by (simp add: rs root_matches_def RequestID_def Recoverer_def Let_def)
  then show ?thesis
    using tail by (simp add: serve_def RequestID_def Let_def fresh_ctx_def)
qed

section \<open>The rate limiter\<close>

text \<open>
  The counter of \<^verbatim>\<open>cmd/api/main.go\<close>: a Redis transaction of \<^verbatim>\<open>INCR\<close> and \<^verbatim>\<open>EXPIRE\<close>.
\<close>

definition redisRateIncrementer :: "string \<Rightarrow> int \<Rightarrow> (goerror + int) prog" where
  "redisRateIncrementer key window = RedisIncr key window (\<lambda>r. case r of
     Inl err \<Rightarrow> Return (Inl err)
   | Inr n \<Rightarrow> Return (Inr n))"

text \<open>
  Counters with the time they expire, as Redis documents the transaction: it runs at one
  moment, an expired counter starts again from 1, and the expiry is set anew each time.
\<close>

type_synonym 'w counters = "'w \<Rightarrow> string \<Rightarrow> (int \<times> int) option"

definition live_count :: "int \<Rightarrow> (int \<times> int) option \<Rightarrow> int" where
  "live_count now entry =
     (case entry of None \<Rightarrow> 0 | Some (n, expiry) \<Rightarrow> if now < expiry then n else 0)"

definition counter_laws :: "'w env \<Rightarrow> 'w view \<Rightarrow> 'w counters \<Rightarrow> bool" where
  "counter_laws E V C \<longleftrightarrow>
     (\<forall>key ttl w r w'. on_incr E key ttl w = (r, w') \<longrightarrow>
        (\<exists>n. r = Inr n \<and> n = live_count (clk V w) (C w key) + 1 \<and>
             C w' key = Some (n, clk V w + ttl) \<and> clk V w' = clk V w))"

text \<open>
  A client's requests: before each one time passes and other things happen (the function
  in the list); the result says which requests were let through to a handler that answers 200.
\<close>

definition answer_ok :: http_handler where
  "answer_ok c = Return (Returned None, c\<lparr>cx_status := 200\<rparr>)"

fun client_requests ::
  "'w env \<Rightarrow> int \<Rightarrow> int \<Rightarrow> ctx \<Rightarrow> ('w \<Rightarrow> 'w) list \<Rightarrow> 'w \<Rightarrow> bool list" where
  "client_requests E limit window c [] w = []"
| "client_requests E limit window c (f # fs) w =
     (case run E (RateLimiter redisRateIncrementer limit window answer_ok c) (f w) of
        ((res, c'), w') \<Rightarrow> (cx_status c' = 200) # client_requests E limit window c fs w')"

definition limit_key :: "ctx \<Rightarrow> string" where
  "limit_key c = ''ratelimit:'' @ rq_ip (cx_req c)"

definition short_pause :: "'w view \<Rightarrow> 'w counters \<Rightarrow> string \<Rightarrow> int \<Rightarrow> ('w \<Rightarrow> 'w) \<Rightarrow> bool" where
  "short_pause V C key window f \<longleftrightarrow>
     (\<forall>w. C (f w) key = C w key \<and> clk V (f w) < clk V w + window)"

lemma limiter_step:
  assumes "counter_laws E V C" and "run E (RateLimiter redisRateIncrementer limit window answer_ok c) w = ((res, c'), w')"
  shows "(cx_status c' = 200) = (live_count (clk V w) (C w (limit_key c)) < limit) \<and>
         C w' (limit_key c) = Some (live_count (clk V w) (C w (limit_key c)) + 1, clk V w' + window)"
proof -
  obtain r u where r: "on_incr E (limit_key c) window w = (r, u)" by fastforce
  then obtain n where "r = Inr n" "n = live_count (clk V w) (C w (limit_key c)) + 1"
    "C u (limit_key c) = Some (n, clk V w + window)" "clk V u = clk V w"
    using assms(1) unfolding counter_laws_def by blast
  with assms(2) r show ?thesis
    by (auto simp: RateLimiter_def redisRateIncrementer_def limit_key_def Let_def answer_ok_def
        status_JSON_def marshal_error_body_def split: if_splits)
qed

lemma client_requests_counted:
  assumes "counter_laws E V C" and "list_all (short_pause V C (limit_key c) window) fs"
    and "C w (limit_key c) = Some (n, clk V w + window)"
  shows "client_requests E limit window c fs w = map (\<lambda>k. n + int k < limit) [0..<length fs]"
  using assms(2,3)
proof (induction fs arbitrary: w n)
  case (Cons f fs)
  obtain res c' w' where r: "run E (RateLimiter redisRateIncrementer limit window answer_ok c) (f w) = ((res, c'), w')"
    by (metis prod_cases3 surj_pair)
  have "live_count (clk V (f w)) (C (f w) (limit_key c)) = n"
    using Cons.prems by (simp add: short_pause_def live_count_def)
  with limiter_step [OF assms(1) r] have st: "(cx_status c' = 200) = (n < limit)"
    "C w' (limit_key c) = Some (n + 1, clk V w' + window)" by simp_all
  have "map (\<lambda>k. n + int k < limit) [0..<length (f # fs)] =
      (n < limit) # map (\<lambda>k. n + 1 + int k < limit) [0..<length fs]"
    by (simp add: upt_conv_Cons map_Suc_upt [symmetric] comp_def algebra_simps del: upt_Suc map_Suc_upt)
  with Cons.IH [OF _ st(2)] Cons.prems(1) r st(1) show ?case by (simp del: upt_Suc)
qed simp


text \<open>A server of which only the counters work, with a clock.\<close>

type_synonym ticking = "int \<times> (string \<Rightarrow> (int \<times> int) option)"

definition tick_env :: "ticking env" where
  "tick_env =
     (let down = Plain ''unavailable'' in
      \<lparr>on_create = (\<lambda>t w. (Inl down, w)), on_first = (\<lambda>c w. (Inl down, w)),
       on_find = (\<lambda>q w. (Inl down, w)), on_count = (\<lambda>w. (Inl down, w)),
       on_exec = (\<lambda>s w. (Inl down, w)), on_get = (\<lambda>k w. (Inl down, w)),
       on_redis = (\<lambda>c w. (Some down, w)), on_setnx = (\<lambda>k v ttl w. (Inl down, w)),
       on_incr = (\<lambda>k ttl (now, m).
         let n = live_count now (m k) + 1 in (Inr n, (now, m(k \<mapsto> (n, now + ttl))))),
       on_amqp = (\<lambda>c w. (Some down, w)), on_confirm = (\<lambda>w. (Inl down, w)),
       on_delivery = (\<lambda>w. (Stopped, w)), on_generate = (\<lambda>g w. (Inl down, w)),
       on_select = (\<lambda>d w. (True, w)), on_uuid = (\<lambda>w. (Uuid ''u'', w)),
       on_now = (\<lambda>w. (fst w, w)), on_boot = (\<lambda>c w. (Some down, w))\<rparr>)"

definition tick_view :: "ticking view" where
  "tick_view = \<lparr>rows = (\<lambda>w. Map.empty), kv = (\<lambda>w. Map.empty), clk = fst\<rparr>"

definition one_second :: "ticking \<Rightarrow> ticking" where
  "one_second w = (fst w + second, snd w)"

lemma tick_laws: "counter_laws tick_env tick_view snd"
  by (auto simp: counter_laws_def tick_env_def tick_view_def Let_def)

lemma one_second_pause: "second < window \<Longrightarrow> short_pause tick_view snd key window one_second"
  by (simp add: short_pause_def one_second_def tick_view_def)

definition sample_request :: "string \<Rightarrow> string \<Rightarrow> request" where
  "sample_request method path =
     \<lparr>rq_method = method, rq_path = path, rq_header = (\<lambda>n. ''''), rq_ip = ''10.0.0.1'',
      rq_body = Raw ''''\<rparr>"


section \<open>The shape of every response\<close>

text \<open>
  C22: Every response. Whatever the request is and whatever the services reply, the
  application answers (no request ends the process), echoes the correlation identifier that it
  logs (the client's own, if it sent one), and answers either a success, the readiness report,
  or the error envelope with a message, a code and the same identifier.
\<close>

theorem every_response_well_formed:
  assumes "root_matches F"
    and "run E (serve F d (NewRouter L F (limited_deps svc inc limit window)) rq) w = (r, w')"
  shows "well_formed_response rq r"
  by (rule yields_run [OF serve_well_formed [OF assms(1)] assms(2)])

text \<open>
  Fiber's matching on the paths of this application: prefixes of whole segments for
  \<^verbatim>\<open>Use\<close>, equal segments for the others, \<^verbatim>\<open>:id\<close> standing for one segment.
\<close>

fun segments :: "string \<Rightarrow> string \<Rightarrow> string list" where
  "segments acc [] = (if acc = '''' then [] else [rev acc])"
| "segments acc (c # cs) =
     (if c = CHR ''/'' then (if acc = '''' then segments '''' cs else rev acc # segments '''' cs)
      else segments (c # acc) cs)"

fun same_segments :: "string list \<Rightarrow> string list \<Rightarrow> bool" where
  "same_segments [] [] \<longleftrightarrow> True"
| "same_segments (p # ps) (s # ss) \<longleftrightarrow> (p = s \<or> p = '':id'') \<and> same_segments ps ss"
| "same_segments _ _ \<longleftrightarrow> False"

definition sample_fiber :: fiber where
  "sample_fiber =
     \<lparr>fb_Matches = (\<lambda>key rq. case key of
        UseAt p \<Rightarrow> take (length (segments '''' p)) (segments '''' (rq_path rq)) = segments '''' p
      | At m p \<Rightarrow> rq_method rq = m \<and> same_segments (segments '''' p) (segments '''' (rq_path rq))),
      fb_Params = (\<lambda>rq name. last ('''' # segments '''' (rq_path rq))),
      fb_QueryInt = (\<lambda>rq name d. d),
      fb_BodyParser = (\<lambda>rq. case rq_body rq of
        Json (JObj [(''title'', JStr t)]) \<Rightarrow> Inr \<lparr>in_Title = t, in_Description = ''''\<rparr>
      | _ \<Rightarrow> Inl (Plain ''body''))\<rparr>"

lemma sample_root: "root_matches sample_fiber"
  by (simp add: root_matches_def sample_fiber_def)

abbreviation sample_app :: "(route_key \<times> middleware) list" where
  "sample_app \<equiv> NewRouter mem_lib sample_fiber
     (limited_deps (production_service sample_broker) redisRateIncrementer 100 (60 * second))"

theorem every_response_well_formed_witness:
  "\<exists>c w'. run mem_env (serve sample_fiber False sample_app (sample_request ''GET'' ''/api/v1/tasks/x''))
            (mem_with []) = (Some c, w') \<and>
          cx_status c = 404 \<and> well_formed_response (sample_request ''GET'' ''/api/v1/tasks/x'') (Some c)"
proof -
  let ?rq = "sample_request ''GET'' ''/api/v1/tasks/x''"
  let ?p = "serve sample_fiber False sample_app ?rq"
  have "map_option cx_status (fst (run mem_env ?p (mem_with []))) = Some 404" by code_simp
  then obtain c where c: "fst (run mem_env ?p (mem_with [])) = Some c" "cx_status c = 404" by auto
  from every_response_well_formed [OF sample_root run_fst [OF c(1)]] run_fst [OF c(1)] c(2)
  show ?thesis by auto
qed

section \<open>Errors and probes\<close>

definition internal_error :: "goerror \<Rightarrow> bool" where
  "internal_error e \<longleftrightarrow>
     as_fiber e = None \<and> \<not> errors_Is e ErrNotFound \<and> \<not> errors_Is e ErrInvalidInput"

definition counted :: "event \<Rightarrow> bool" where
  "counted ev \<longleftrightarrow> (case ev of EIncr key ttl r \<Rightarrow> True | _ \<Rightarrow> False)"

definition succeeded :: "boot_cmd \<Rightarrow> event list \<Rightarrow> bool" where
  "succeeded b evs \<longleftrightarrow> list_ex (\<lambda>ev. case ev of EBoot b' r \<Rightarrow> b' = b \<and> r = None | _ \<Rightarrow> False) evs"

definition redis_up :: "event list \<Rightarrow> bool" where
  "redis_up evs \<longleftrightarrow>
     list_ex (\<lambda>ev. case ev of ERedis PingRedis r \<Rightarrow> r = None | _ \<Rightarrow> False) evs"

definition all_up :: "event list \<Rightarrow> bool" where
  "all_up evs \<longleftrightarrow> succeeded GormDB evs \<and> succeeded PingDB evs \<and> redis_up evs"

lemma Ready_run:
  "case run E (Health_Ready c) w of
     ((res, c'), w') \<Rightarrow> res = Returned None \<and>
       cx_status c' = (if all_up (log E (Health_Ready c) w) then 200 else 503)"
proof -
  obtain r u where r: "on_boot E GormDB w = (r, u)" by fastforce
  obtain s v where s: "on_boot E PingDB u = (s, v)" by fastforce
  obtain a x where a: "on_redis E PingRedis u = (a, x)" by fastforce
  obtain b y where b: "on_redis E PingRedis v = (b, y)" by fastforce
  show ?thesis
    using r s a b
    by (cases r; cases s)
       (auto simp: Health_Ready_def Let_def status_JSON_def all_up_def succeeded_def redis_up_def)
qed

lemma all_up_skip: "all_up (EUUID u # evs) = all_up evs"
  by (simp add: all_up_def succeeded_def redis_up_def)

text \<open>
  C38: The readiness probe. A request to \<^verbatim>\<open>/health/ready\<close> is never counted by the rate
  limiter, and is answered 200 exactly if the database handle, the ping of the database and
  the ping of Redis all succeeded, else 503.
\<close>

theorem Ready_reports:
  assumes "root_matches F" and "fb_Matches F (At ''GET'' ''/health/ready'') rq"
    and "\<not> fb_Matches F (At ''GET'' ''/health/live'') rq"
    and "run E (serve F d (NewRouter L F deps) rq) w = (r, w')"
  shows "list_all (\<lambda>ev. \<not> counted ev) (log E (serve F d (NewRouter L F deps) rq) w) \<and>
         (\<exists>c. r = Some c \<and>
            cx_status c = (if all_up (log E (serve F d (NewRouter L F deps) rq) w) then 200 else 503))"
proof -
  obtain rs where rs: "NewRouter L F deps = (UseAt ''/'', RequestID) # (UseAt ''/'', Recoverer) #
      (At ''GET'' ''/health/live'', endpoint Health_Live) #
      (At ''GET'' ''/health/ready'', endpoint Health_Ready) # rs"
    by (rule that [of "drop 4 (NewRouter L F deps)"]) (simp add: NewRouter_def Let_def)
  let ?c = "\<lambda>i. set_header RequestIDHeader i ((fresh_ctx rq)\<lparr>cx_request_id := Some i\<rparr>)"
  have routes: "run_routes F (NewRouter L F deps) (fresh_ctx rq) =
      RequestID (Recoverer Health_Ready) (fresh_ctx rq)"
    using assms(1-3) by (simp add: rs root_matches_def RequestID_def Recoverer_def Let_def fresh_ctx_def)
  have probe: "list_all (\<lambda>ev. \<not> counted ev) (log E (Health_Ready c) v)" for c v
  proof -
    have "only (\<lambda>ev. \<not> counted ev) (Health_Ready c)"
      by (auto simp: Health_Ready_def Let_def counted_def split: option.split)
    then show ?thesis unfolding list_all_iff by (intro ballI) (rule only_log)
  qed
  show ?thesis
  proof (cases "rq_header rq RequestIDHeader = ''''")
    case True
    obtain i u where i: "on_uuid E w = (i, u)" by fastforce
    obtain res c' v where x: "run E (Health_Ready (?c (uuid_String i))) u = ((res, c'), v)"
      by (metis surj_pair)
    show ?thesis
      using Ready_run [of E "?c (uuid_String i)" u] probe [of "?c (uuid_String i)" u] assms(4) True i x
      unfolding serve_def routes
      by (auto simp: RequestID_def Recoverer_def Let_def counted_def all_up_skip)
  next
    case False
    obtain res c' v where x: "run E (Health_Ready (?c (rq_header rq RequestIDHeader))) w = ((res, c'), v)"
      by (metis surj_pair)
    show ?thesis
      using Ready_run [of E "?c (rq_header rq RequestIDHeader)" w]
        probe [of "?c (rq_header rq RequestIDHeader)" w] assms(4) False x
      unfolding serve_def routes
      by (auto simp: RequestID_def Recoverer_def Let_def)
  qed
qed

theorem Ready_reports_witness:
  "\<exists>c w'. run mem_env (serve sample_fiber True sample_app (sample_request ''GET'' ''/health/ready''))
            ((mem_with [])\<lparr>m_faults := [False, True]\<rparr>) = (Some c, w') \<and> cx_status c = 503"
proof -
  let ?rq = "sample_request ''GET'' ''/health/ready''"
  let ?p = "serve sample_fiber True sample_app ?rq"
  let ?w = "(mem_with [])\<lparr>m_faults := [False, True]\<rparr>"
  have m: "fb_Matches sample_fiber (At ''GET'' ''/health/ready'') ?rq"
    "\<not> fb_Matches sample_fiber (At ''GET'' ''/health/live'') ?rq" by code_simp+
  have "\<not> all_up (log mem_env ?p ?w)" by code_simp
  moreover obtain r w' where r: "run mem_env ?p ?w = (r, w')" by fastforce
  ultimately show ?thesis using Ready_reports [OF sample_root m r] r by auto
qed

section \<open>Two observations\<close>

text \<open>The page reports the limit of the query and not the one that was used.\<close>

lemma List_echoes_the_query:
  "map_option cx_body (fst (run mem_env
      (serve (sample_fiber\<lparr>fb_QueryInt := (\<lambda>rq name d. if name = ''limit'' then 1000 else d)\<rparr>) False
        (NewRouter mem_lib (sample_fiber\<lparr>fb_QueryInt := (\<lambda>rq name d. if name = ''limit'' then 1000 else d)\<rparr>)
          (limited_deps (production_service sample_broker) redisRateIncrementer 100 (60 * second)))
        (sample_request ''GET'' ''/api/v1/tasks''))
      (mem_with []))) =
   Some (Some (Json (JObj [(''data'', JArr []), (''limit'', JNum 1000), (''offset'', JNum 0),
     (''total'', JNum 0)])))"
  by code_simp

text \<open>A client error of the framework, such as a malformed body, has the code of an internal one.\<close>

lemma fiber_error_code:
  "error_reply d tr (FiberError 400 m) =
     (400, \<lparr>eb_Error = m, eb_Code = ''internal_error'', eb_Details = '''', eb_TraceID = tr\<rparr>)"
  by (simp add: error_reply_def Let_def)

end
