(* ===== verification/Http_Store.thy ===== *)
theory Http_Store
  imports Http_Api
begin

text \<open>
  What the status of a response says about the stored tasks, for every request to the whole
  application. The contract of one stage of the chain is the locale \<open>truthful_stage\<close>.
\<close>

section \<open>The statement\<close>

definition added :: "'w view \<Rightarrow> task \<Rightarrow> 'w \<Rightarrow> 'w \<Rightarrow> bool" where
  "added V t w w' \<longleftrightarrow> (\<exists>inp. acceptable inp \<and> pending_from inp t \<and> adds_row V t w w')"

definition removed :: "'w view \<Rightarrow> uuid \<Rightarrow> 'w \<Rightarrow> 'w \<Rightarrow> bool" where
  "removed V i w w' \<longleftrightarrow> store V w i \<noteq> None \<and> store V w' = (store V w)(i := None)"

definition response_tells :: "lib \<Rightarrow> 'w view \<Rightarrow> ctx \<Rightarrow> 'w \<Rightarrow> 'w \<Rightarrow> bool" where
  "response_tells L V c w w' \<longleftrightarrow>
     (if cx_status c = 201 then
        (\<exists>t b. added V t w w' \<and> cx_body c = Some b \<and> marshal_task L t = Inr b)
      else if cx_status c = 204 then (\<exists>i. removed V i w w')
      else if cx_status c = 500 then
        store V w' = store V w \<or> (\<exists>t. added V t w w') \<or> (\<exists>i. removed V i w w')
      else store V w' = store V w)"

text \<open>The response that the application gives for the outcome of a chain.\<close>

definition final_ctx :: "bool \<Rightarrow> completion \<Rightarrow> ctx \<Rightarrow> ctx" where
  "final_ctx d res c =
     (case res of
        Returned None \<Rightarrow> c
      | Returned (Some err) \<Rightarrow> snd (ErrorHandler d c err)
      | Panicked \<Rightarrow> c\<lparr>cx_status := 500\<rparr>)"

definition truthful :: "lib \<Rightarrow> 'w env \<Rightarrow> 'w view \<Rightarrow> bool \<Rightarrow> http_handler \<Rightarrow> bool" where
  "truthful L E V d h \<longleftrightarrow>
     (\<forall>c w res c' w'. cx_status c = 200 \<longrightarrow> run E (h c) w = ((res, c'), w') \<longrightarrow>
        response_tells L V (final_ctx d res c') w w')"

text \<open>
  No error of the database driver is an error of the HTTP framework or a sentinel of the
  program.
\<close>

definition ordinary :: "goerror \<Rightarrow> bool" where
  "ordinary e \<longleftrightarrow>
     as_fiber e = None \<and> \<not> errors_Is e ErrNotFound \<and> \<not> errors_Is e ErrInvalidInput"

fun driver_error :: "event \<Rightarrow> bool" where
  "driver_error (ECreate _ (Inl e)) \<longleftrightarrow> ordinary e"
| "driver_error (EFirst _ (Inl e)) \<longleftrightarrow> ordinary e"
| "driver_error (EFind _ (Inl e)) \<longleftrightarrow> ordinary e"
| "driver_error (ECount (Inl e)) \<longleftrightarrow> ordinary e"
| "driver_error (EExec _ (Inl e)) \<longleftrightarrow> ordinary e"
| "driver_error _ \<longleftrightarrow> True"

definition driver_errors :: "'w env \<Rightarrow> bool" where
  "driver_errors E \<longleftrightarrow> (\<forall>w ev w'. answers E w ev w' \<longrightarrow> driver_error ev)"

locale truthful_stage =
  fixes L :: lib and E :: "'w env" and mw :: middleware
  assumes keeps:
    "gorm_laws E V \<Longrightarrow> driver_errors E \<Longrightarrow> truthful L E V d next \<Longrightarrow> truthful L E V d (mw next)"

section \<open>Errors and statuses\<close>

lemma ordinary_errorf: "ordinary e \<Longrightarrow> ordinary (errorf m e)"
  by (simp add: ordinary_def errorf_def)

lemma ordinary_status: "ordinary e \<Longrightarrow> fst (error_reply d tr e) = 500"
  by (simp add: ordinary_def error_reply_def Let_def)

lemma not_found_status: "fst (error_reply d tr ErrNotFound) = 404"
  by (simp add: error_reply_def Let_def)

lemma final_ctx_status:
  "cx_status (final_ctx d (Returned (Some e)) c) = fst (error_reply d (traceID c) e)"
  using ErrorHandler_reply [of d c e] by (auto simp: final_ctx_def split: prod.splits)

lemma tells_quiet:
  "store V w' = store V w \<Longrightarrow> cx_status c \<noteq> 201 \<Longrightarrow> cx_status c \<noteq> 204 \<Longrightarrow> response_tells L V c w w'"
  by (simp add: response_tells_def)

lemma change_cong:
  assumes "store V u = store V w"
  shows "added V t u w' = added V t w w'" "removed V i u w' = removed V i w w'"
  using assms by (simp_all add: added_def removed_def adds_row_def)

lemma tells_cong:
  assumes "response_tells L V c u w'" "store V u = store V w"
  shows "response_tells L V c w w'"
  using assms(1) unfolding response_tells_def change_cong [OF assms(2)] assms(2) .

lemma tells_error:
  assumes "store V w' = store V w" and "as_fiber e = None"
  shows "response_tells L V (final_ctx d (Returned (Some e)) c) w w'"
  using assms
  by (intro tells_quiet) (simp_all add: final_ctx_status error_reply_def Let_def)

lemma tells_fiber:
  assumes "store V w' = store V w" "code \<noteq> 201" "code \<noteq> 204"
  shows "response_tells L V (final_ctx d (Returned (Some (FiberError code m))) c) w w'"
  using assms
  by (intro tells_quiet) (simp_all add: final_ctx_status error_reply_def Let_def)

lemma tells_JSON:
  assumes "store V w' = store V w" "status_JSON code v c = (res, c')"
    and "code \<noteq> 201" "code \<noteq> 204" "\<And>e. v = Inl e \<Longrightarrow> as_fiber e = None"
  shows "response_tells L V (final_ctx d res c') w w'"
proof (cases v)
  case (Inl e)
  with assms show ?thesis by (auto simp: status_JSON_def intro: tells_error)
next
  case (Inr b)
  with assms show ?thesis by (auto simp: status_JSON_def final_ctx_def intro!: tells_quiet)
qed

lemma marshal_task_error: "marshal_task L t = Inl e \<Longrightarrow> as_fiber e = None \<and> ordinary e"
  by (auto simp: marshal_task_def marshal_time_def json_error_def ordinary_def
      split: sum.splits if_splits)

lemma marshal_page_error: "marshal_page L ts n limit offset = Inl e \<Longrightarrow> as_fiber e = None"
proof -
  have "marshal_list (marshal_task L) ts = Inl e \<Longrightarrow> as_fiber e = None"
    by (induction ts) (auto dest: marshal_task_error split: sum.splits)
  then show "marshal_page L ts n limit offset = Inl e \<Longrightarrow> as_fiber e = None"
    by (auto simp: marshal_page_def split: sum.splits)
qed

section \<open>The errors of the use cases\<close>

lemma driver_ordinary: "driver_errors E \<Longrightarrow> answers E w ev w' \<Longrightarrow> driver_error ev"
  unfolding driver_errors_def by blast

lemma GetByID_error:
  assumes "driver_errors E" "run E (taskRepository_GetByID i) w = (Inl e, w')"
  shows "as_fiber e = None"
proof -
  obtain r u where r: "on_first E (IdIs i) w = (r, u)" by fastforce
  then have "driver_error (EFirst (IdIs i) r)" using driver_ordinary [OF assms(1), of w _ u] by simp
  with assms(2) r show ?thesis
    by (auto simp: taskRepository_GetByID_def ordinary_def errorf_def split: sum.splits if_splits)
qed

lemma Get_error:
  assumes "driver_errors E" "run E (TaskService_Get L (production_service b) i) w = (Inl e, w')"
  shows "as_fiber e = None"
proof -
  have "\<exists>u v. run E (taskRepository_GetByID i) u = (Inl e, v)"
    using assms(2) by (fastforce simp: TaskService_Get_def Let_def split: prod.splits sum.splits)
  with GetByID_error [OF assms(1)] show ?thesis by blast
qed

lemma List_error:
  assumes "driver_errors E" "run E (TaskService_List (production_service b) limit offset) w = (Inl e, w')"
  shows "as_fiber e = None"
proof -
  let ?q = "\<lparr>q_where = None, q_order = CreatedDesc,
    q_limit = (if limit \<le> 0 \<or> limit > 100 then 20 else limit), q_offset = (if offset < 0 then 0 else offset)\<rparr>"
  obtain r u where r: "on_count E w = (r, u)" by fastforce
  obtain r' u' where r': "on_find E ?q u = (r', u')" by fastforce
  have "driver_error (ECount r)" "driver_error (EFind ?q r')"
    using driver_ordinary [OF assms(1), of w "ECount r" u]
      driver_ordinary [OF assms(1), of u "EFind ?q r'" u'] r r' by simp_all
  with assms(2) r r' show ?thesis
    by (auto simp: TaskService_List_def taskRepository_List_def Let_def ordinary_def errorf_def
        split: sum.splits)
qed

lemma Create_error:
  assumes "driver_errors E" "CreateTaskInput_validate inp = None"
    and "run E (TaskService_Create L (production_service b) inp) w = (Inl e, w')"
  shows "ordinary e"
proof -
  let ?t = "zero_task\<lparr>Title := in_Title inp, Description := in_Description inp,
                      Status := TaskStatusPending\<rparr>"
  have "run E (taskRepository_Create ?t) w = (Inl e, w')"
    using Create_rejected [OF assms(2,3)] by blast
  then obtain t u r where r: "on_create E t u = (r, w')"
    and e: "case r of Inl err \<Rightarrow> e = errorf ''create task'' err | Inr _ \<Rightarrow> False"
    by (auto simp: taskRepository_Create_def split: prod.splits sum.splits)
  have "driver_error (ECreate t r)" using driver_ordinary [OF assms(1), of u _ w'] r by simp
  with e show ?thesis by (cases r) (auto intro: ordinary_errorf)
qed

lemma Delete_error:
  assumes "driver_errors E" "run E (TaskService_Delete (production_service b) i) w = (Some e, w')"
  shows "run E (taskRepository_Delete i) w = (Some e, w') \<and> (e = ErrNotFound \<or> ordinary e)"
proof -
  obtain r u where r: "on_exec E (Delete (IdIs i)) w = (r, u)" by fastforce
  then have "driver_error (EExec (Delete (IdIs i)) r)"
    using driver_ordinary [OF assms(1), of w _ u] by simp
  with assms(2) r show ?thesis
    by (auto simp: TaskService_Delete_def taskRepository_Delete_def ordinary_errorf
        split: sum.splits if_splits prod.splits)
qed

section \<open>Every stage is truthful\<close>

lemma truthfulI:
  "(\<And>c w res c' w'. cx_status c = 200 \<Longrightarrow> run E (h c) w = ((res, c'), w') \<Longrightarrow>
      response_tells L V (final_ctx d res c') w w') \<Longrightarrow> truthful L E V d h"
  unfolding truthful_def by blast

lemma truthfulD:
  "truthful L E V d h \<Longrightarrow> run E (h c) w = ((res, c'), w') \<Longrightarrow> cx_status c = 200 \<Longrightarrow>
   response_tells L V (final_ctx d res c') w w'"
  unfolding truthful_def by blast

lemma read_frame:
  assumes "gorm_laws E V" "only (\<lambda>ev. \<not> write_event ev) p" "run E p w = (a, w')"
  shows "store V w' = store V w"
  by (rule store_cong [OF rows_frame_read [OF assms]])

lemma no_db_read: "only (\<lambda>ev. \<not> db_event ev) p \<Longrightarrow> only (\<lambda>ev. \<not> write_event ev) p"
  by (erule only_mono) (case_tac e; simp)

lemma reads:
  "only (\<lambda>ev. \<not> write_event ev) (TaskService_Get L (production_service b) i)"
  "only (\<lambda>ev. \<not> write_event ev) (TaskService_List (production_service b) limit offset)"
  by (auto simp: TaskService_Get_def TaskService_List_def Let_def taskRepository_GetByID_def
      taskRepository_List_def TaskService_cacheSet_def split: sum.split intro!: only_pbind)


lemma Get_truthful:
  assumes "gorm_laws E V" "driver_errors E"
  shows "truthful L E V d (TaskHandler_Get L F (production_service b))"
proof (rule truthfulI)
  fix c w res c' w'
  assume c: "cx_status c = 200"
    and r: "run E (TaskHandler_Get L F (production_service b) c) w = ((res, c'), w')"
  show "response_tells L V (final_ctx d res c') w w'"
  proof (cases "uuid_Parse L (fb_Params F (cx_req c) ''id'')")
    case None
    with r show ?thesis by (auto simp: TaskHandler_Get_def intro!: tells_fiber)
  next
    case (Some i)
    obtain x u where x: "run E (TaskService_Get L (production_service b) i) w = (x, u)" by fastforce
    have st: "store V u = store V w" by (rule read_frame [OF assms(1) reads(1) x])
    show ?thesis
    proof (cases x)
      case (Inl e)
      with r Some x st Get_error [OF assms(2)] show ?thesis
        by (auto simp: TaskHandler_Get_def intro!: tells_error)
    next
      case (Inr t)
      with r Some x st c show ?thesis
        by (auto simp: TaskHandler_Get_def ctx_JSON_def dest: marshal_task_error intro!: tells_JSON)
    qed
  qed
qed

lemma List_truthful:
  assumes "gorm_laws E V" "driver_errors E"
  shows "truthful L E V d (TaskHandler_List L F (production_service b))"
proof (rule truthfulI)
  fix c :: ctx and w res c' w'
  let ?p = "TaskService_List (production_service b) (fb_QueryInt F (cx_req c) ''limit'' 20)
    (fb_QueryInt F (cx_req c) ''offset'' 0)"
  assume c: "cx_status c = 200"
    and r: "run E (TaskHandler_List L F (production_service b) c) w = ((res, c'), w')"
  obtain x u where x: "run E ?p w = (x, u)" by fastforce
  have st: "store V u = store V w" by (rule read_frame [OF assms(1) reads(2) x])
  show "response_tells L V (final_ctx d res c') w w'"
  proof (cases x)
    case (Inl e)
    with r x st List_error [OF assms(2)] show ?thesis
      by (auto simp: TaskHandler_List_def Let_def intro!: tells_error)
  next
    case (Inr ts)
    with r x st c show ?thesis
      by (cases ts)
         (auto simp: TaskHandler_List_def Let_def ctx_JSON_def dest: marshal_page_error intro!: tells_JSON)
  qed
qed

lemma tells_500:
  "store V w' = store V w \<or> (\<exists>t. added V t w w') \<or> (\<exists>i. removed V i w w') \<Longrightarrow> cx_status c = 500 \<Longrightarrow>
   response_tells L V c w w'"
  by (simp add: response_tells_def)

lemma tells_ordinary:
  "store V w' = store V w \<or> (\<exists>t. added V t w w') \<or> (\<exists>i. removed V i w w') \<Longrightarrow> ordinary e \<Longrightarrow>
   response_tells L V (final_ctx d (Returned (Some e)) c) w w'"
  by (rule tells_500) (simp_all add: final_ctx_status ordinary_status)

lemma Create_truthful:
  assumes "gorm_laws E V" "driver_errors E"
  shows "truthful L E V d (TaskHandler_Create L F (production_service b))"
proof (rule truthfulI)
  fix c w res c' w'
  assume r: "run E (TaskHandler_Create L F (production_service b) c) w = ((res, c'), w')"
  show "response_tells L V (final_ctx d res c') w w'"
  proof (cases "fb_BodyParser F (cx_req c)")
    case (Inl e)
    with r show ?thesis by (auto simp: TaskHandler_Create_def intro!: tells_fiber)
  next
    case (Inr inp)
    obtain x u where x: "run E (TaskService_Create L (production_service b) inp) w = (x, u)"
      by fastforce
    show ?thesis
    proof (cases x)
      case e: (Inl e)
      then have out: "res = Returned (Some e)" "c' = c" "w' = u"
        using r Inr x by (auto simp: TaskHandler_Create_def)
      show ?thesis
      proof (cases "CreateTaskInput_validate inp")
        case None
        then have ok: "acceptable inp" using validate_acceptable [of inp] by simp
        have "ordinary e" using Create_error [OF assms(2) None] x e by blast
        moreover have "store V u = store V w \<or> (\<exists>t. added V t w u)"
          using Create_store_cases [OF assms(1) x] ok e by (auto simp: added_def)
        ultimately show ?thesis unfolding out by (intro tells_ordinary) auto
      next
        case (Some e')
        with x e have "e = e'" "u = w" by (simp_all add: TaskService_Create_def)
        moreover have "as_fiber e' = None"
          using Some by (auto simp: CreateTaskInput_validate_def split: if_splits)
        ultimately show ?thesis unfolding out by (intro tells_error) simp_all
      qed
    next
      case t: (Inr t)
      then have out: "status_JSON 201 (marshal_task L t) c = (res, c')" "w' = u"
        using r Inr x by (auto simp: TaskHandler_Create_def)
      have a: "added V t w u"
        using Create_store_cases [OF assms(1) x] t by (auto simp: added_def split: if_splits)
      show ?thesis
      proof (cases "marshal_task L t")
        case (Inl e)
        with out a show ?thesis
          by (auto simp: status_JSON_def dest: marshal_task_error intro!: tells_ordinary)
      next
        case (Inr body)
        with out a show ?thesis by (auto simp: status_JSON_def final_ctx_def response_tells_def)
      qed
    qed
  qed
qed

lemma Delete_truthful:
  assumes "gorm_laws E V" "driver_errors E"
  shows "truthful L E V d (TaskHandler_Delete L F (production_service b))"
proof (rule truthfulI)
  fix c w res c' w'
  assume r: "run E (TaskHandler_Delete L F (production_service b) c) w = ((res, c'), w')"
  show "response_tells L V (final_ctx d res c') w w'"
  proof (cases "uuid_Parse L (fb_Params F (cx_req c) ''id'')")
    case None
    with r show ?thesis by (auto simp: TaskHandler_Delete_def intro!: tells_fiber)
  next
    case (Some i)
    obtain x u where x: "run E (taskRepository_Delete i) w = (x, u)" by fastforce
    note rel = Delete_refines [OF assms(1) x]
    show ?thesis
    proof (cases x)
      case None
      then have "removed V i w u" using rel by (auto simp: removed_def delete_abs_def split: if_splits)
      moreover obtain y v where y: "on_redis E (Del (task_key i)) u = (y, v)" by fastforce
      moreover have "store V v = store V u"
        by (rule read_frame [OF assms(1), of "RedisDo (Del (task_key i)) Return"]) (use y in simp_all)
      ultimately show ?thesis
        using r Some x None
        by (auto simp: TaskHandler_Delete_def TaskService_Delete_def SendNoContent_def final_ctx_def
            response_tells_def removed_def)
    next
      case e: (Some e)
      then have s: "run E (TaskService_Delete (production_service b) i) w = (Some e, u)"
        using x by (simp add: TaskService_Delete_def)
      have out: "res = Returned (Some e)" "c' = c" "w' = u"
        using r Some s by (auto simp: TaskHandler_Delete_def)
      from Delete_error [OF assms(2) s] consider "e = ErrNotFound" | "ordinary e" by blast
      then show ?thesis
      proof cases
        case 1
        then show ?thesis using rel e unfolding out by (intro tells_error) simp_all
      next
        case 2
        then have "store V u = store V w \<or> (\<exists>i. removed V i w u)"
          using rel e by (auto simp: ordinary_def removed_def delete_abs_def split: if_splits)
        with 2 show ?thesis unfolding out by (intro tells_ordinary) auto
      qed
    qed
  qed
qed

lemma Live_truthful: "truthful L E V d Health_Live"
  by (rule truthfulI) (auto simp: Health_Live_def ctx_JSON_def intro!: tells_JSON)

lemma NotFound_truthful: "truthful L E V d NotFound"
  by (rule truthfulI) (auto simp: NotFound_def marshal_error_body_def intro!: tells_JSON)

lemma Ready_truthful:
  assumes "gorm_laws E V"
  shows "truthful L E V d Health_Ready"
proof (rule truthfulI)
  fix c w res c' w'
  assume r: "run E (Health_Ready c) w = ((res, c'), w')"
  have "only (\<lambda>ev. \<not> write_event ev) (Health_Ready c)"
    by (simp add: Health_Ready_def Let_def split: option.split)
  from read_frame [OF assms this r] have "store V w' = store V w" .
  moreover have "yields (\<lambda>(res, c'). \<exists>code v. code \<in> {200, 503} \<and> status_JSON code (Inr v) c = (res, c')) (Health_Ready c)"
    by (auto simp: Health_Ready_def Let_def status_JSON_def split: option.split)
  from yields_run [OF this r] obtain code v where "code \<in> {200, 503}" "status_JSON code (Inr v) c = (res, c')"
    by auto
  ultimately show "response_tells L V (final_ctx d res c') w w'" by (auto intro: tells_JSON)
qed

lemma endpoint_truthful:
  fixes E :: "'w env"
  assumes "\<And>V d. gorm_laws E V \<Longrightarrow> driver_errors E \<Longrightarrow> truthful L E V d h"
  shows "truthful_stage L E (endpoint h)"
  by unfold_locales (rule assms)

lemma RequestID_truthful_stage: "truthful_stage L E RequestID"
proof
  fix V d and "next" :: http_handler
  assume laws: "gorm_laws E V" and n: "truthful L E V d next"
  show "truthful L E V d (RequestID next)"
  proof (rule truthfulI)
    fix c :: ctx and w res c' w'
    assume c: "cx_status c = 200" and r: "run E (RequestID next c) w = ((res, c'), w')"
    show "response_tells L V (final_ctx d res c') w w'"
    proof (cases "rq_header (cx_req c) RequestIDHeader = ''''")
      case True
      obtain i u where i: "on_uuid E w = (i, u)" by fastforce
      have "store V u = store V w"
        by (rule read_frame [OF laws, of "NewUUID Return"]) (use i in simp_all)
      with r True i c show ?thesis
        by (auto simp: RequestID_def Let_def intro!: tells_cong [OF truthfulD [OF n]])
    next
      case False
      with r c show ?thesis by (auto simp: RequestID_def Let_def intro!: truthfulD [OF n])
    qed
  qed
qed

lemma Recoverer_truthful_stage: "truthful_stage L E Recoverer"
proof
  fix V d and "next" :: http_handler
  assume n: "truthful L E V d next"
  show "truthful L E V d (Recoverer next)"
  proof (rule truthfulI)
    fix c :: ctx and w res c' w'
    assume c: "cx_status c = 200" and r: "run E (Recoverer next c) w = ((res, c'), w')"
    obtain res1 c1 w1 where x: "run E (next c) w = ((res1, c1), w1)" by (metis surj_pair)
    from truthfulD [OF n x c] have t: "response_tells L V (final_ctx d res1 c1) w w1" .
    show "response_tells L V (final_ctx d res c') w w'"
    proof (cases res1)
      case (Returned e)
      with r x t show ?thesis by (simp add: Recoverer_def)
    next
      case Panicked
      with r x t show ?thesis
        by (auto simp: Recoverer_def status_JSON_def marshal_error_body_def final_ctx_def response_tells_def)
    qed
  qed
qed

lemma RateLimiter_truthful_stage:
  "truthful_stage L E (RateLimiter redisRateIncrementer limit window)"
proof
  fix V d and "next" :: http_handler
  assume laws: "gorm_laws E V" and n: "truthful L E V d next"
  show "truthful L E V d (RateLimiter redisRateIncrementer limit window next)"
  proof (rule truthfulI)
    fix c :: ctx and w res c' w'
    assume c: "cx_status c = 200"
      and r: "run E (RateLimiter redisRateIncrementer limit window next c) w = ((res, c'), w')"
    obtain x u where x: "on_incr E (limit_key c) window w = (x, u)" by fastforce
    have st: "store V u = store V w"
      by (rule read_frame [OF laws, of "RedisIncr (limit_key c) window Return"]) (use x in simp_all)
    have "response_tells L V (final_ctx d res c') u w'"
    proof (cases x)
      case (Inl e)
      with r x c show ?thesis
        by (auto simp: RateLimiter_def redisRateIncrementer_def limit_key_def intro!: truthfulD [OF n])
    next
      case (Inr k)
      show ?thesis
      proof (cases "k > limit")
        case True
        with r x Inr show ?thesis
          by (auto simp: RateLimiter_def redisRateIncrementer_def limit_key_def Let_def
              marshal_error_body_def intro!: tells_JSON split: if_splits)
      next
        case False
        with r x Inr c show ?thesis
          by (auto simp: RateLimiter_def redisRateIncrementer_def limit_key_def Let_def
              intro!: truthfulD [OF n])
      qed
    qed
    then show "response_tells L V (final_ctx d res c') w w'" by (rule tells_cong) (rule st)
  qed
qed

interpretation limiter_truth: truthful_stage L E "RateLimiter redisRateIncrementer limit window"
   for L E limit window
  by (rule RateLimiter_truthful_stage)

interpretation recoverer_truth: truthful_stage L E Recoverer for L E
  by (rule Recoverer_truthful_stage)

interpretation request_id_truth: truthful_stage L E RequestID for L E
  by (rule RequestID_truthful_stage)

section \<open>The whole application\<close>

lemma run_routes_truthful:
  assumes "gorm_laws E V" "driver_errors E"
  shows "list_all (\<lambda>(key, mw). truthful_stage L E mw) rs \<Longrightarrow> truthful L E V d (run_routes F rs)"
proof (induction rs)
  case Nil
  show ?case by (rule truthfulI) (auto intro!: tells_fiber)
next
  case (Cons r rs)
  obtain key mw where r: "r = (key, mw)" by fastforce
  with Cons have "truthful L E V d (run_routes F rs)" "truthful L E V d (mw (run_routes F rs))"
    by (auto intro: truthful_stage.keeps [OF _ assms])
  with r show ?case by (auto simp: truthful_def)
qed


lemma router_truthful:
  "list_all (\<lambda>(key, mw). truthful_stage L E mw) (NewRouter L F (limited_deps (production_service b)
      redisRateIncrementer limit window))"
  by (simp add: NewRouter_def limited_deps_def Let_def endpoint_truthful
      RequestID_truthful_stage Recoverer_truthful_stage RateLimiter_truthful_stage
      Live_truthful Ready_truthful Create_truthful List_truthful Get_truthful Delete_truthful
      NotFound_truthful)

text \<open>
  C12: The status of a response tells what happened to the tasks. Whatever request is sent to
  the application and whatever the services reply, at most one task is added or removed, and
  only if the status is 201, 204 or 500: 201 says that a pending task with acceptable input was
  added, whose JSON form is the body; 204 that an existing task was removed; after a 500 either
  may have happened. Every other response, in particular to a rejected or limited request, to
  an unknown route and to a probe, leaves the tasks as they were.
\<close>

theorem status_tells_the_change:
  assumes "gorm_laws E V" and "driver_errors E"
    and "run E (serve F d (NewRouter L F (limited_deps (production_service b)
           redisRateIncrementer limit window)) rq) w = (Some c, w')"
  shows "response_tells L V c w w'"
proof -
  let ?rs = "NewRouter L F (limited_deps (production_service b) redisRateIncrementer limit window)"
  obtain res c1 where x: "run E (run_routes F ?rs (fresh_ctx rq)) w = ((res, c1), w')"
    and c: "c = final_ctx d res c1"
    using assms(3) by (auto simp: serve_def final_ctx_def split: prod.splits completion.splits option.splits)
  have "cx_status (fresh_ctx rq) = 200" by (simp add: fresh_ctx_def)
  from truthfulD [OF run_routes_truthful [OF assms(1,2) router_truthful] x this] c show ?thesis by simp
qed

text \<open>The in-memory services report ordinary errors.\<close>

lemma mem_errors:
  "mem_create t w = (Inl e, w') \<Longrightarrow> ordinary e" "mem_first c w = (Inl e, w') \<Longrightarrow> ordinary e"
  "mem_find q w = (Inl e, w') \<Longrightarrow> ordinary e" "mem_exec s w = (Inl e, w') \<Longrightarrow> ordinary e"
  by (auto simp: mem_create_def mem_first_def mem_find_def mem_exec_def ordinary_def Let_def
      split: if_splits list.splits)

lemma faulty_error:
  assumes "faulty db_down f w = (Inl e, w')" "\<And>u. f u = (Inl e, w') \<Longrightarrow> ordinary e"
  shows "ordinary e"
proof (cases "pop_fault w")
  case (Pair b u)
  with assms show ?thesis by (cases b) (auto simp: faulty_def db_down_def ordinary_def)
qed

lemma driver_error_iff:
  "driver_error ev \<longleftrightarrow>
     (case ev of ECreate t r \<Rightarrow> (\<forall>e. r = Inl e \<longrightarrow> ordinary e) | EFirst c r \<Rightarrow> (\<forall>e. r = Inl e \<longrightarrow> ordinary e)
      | EFind q r \<Rightarrow> (\<forall>e. r = Inl e \<longrightarrow> ordinary e) | ECount r \<Rightarrow> (\<forall>e. r = Inl e \<longrightarrow> ordinary e)
      | EExec s r \<Rightarrow> (\<forall>e. r = Inl e \<longrightarrow> ordinary e) | _ \<Rightarrow> True)"
  by (rule driver_error.cases [of ev]) simp_all

lemma mem_driver_errors: "driver_errors mem_env"
proof -
  have "driver_error ev" if a: "answers mem_env w ev w'" for w ev w'
    using a unfolding driver_error_iff
    by (cases ev) (auto simp: mem_env_def intro: faulty_error mem_errors)
  then show ?thesis unfolding driver_errors_def by blast
qed

theorem status_tells_the_change_witness:
  "\<exists>c w' t. run mem_env (serve sample_fiber False sample_app
              ((sample_request ''POST'' ''/api/v1/tasks'')\<lparr>rq_body := Json (JObj [(''title'', JStr ''a'')])\<rparr>))
             (mem_with []) = (Some c, w') \<and> cx_status c = 201 \<and> added mem_view t (mem_with []) w'"
proof -
  let ?rq = "(sample_request ''POST'' ''/api/v1/tasks'')\<lparr>rq_body := Json (JObj [(''title'', JStr ''a'')])\<rparr>"
  let ?p = "serve sample_fiber False sample_app ?rq"
  have "map_option cx_status (fst (run mem_env ?p (mem_with []))) = Some 201" by code_simp
  then obtain c where c: "fst (run mem_env ?p (mem_with [])) = Some c" "cx_status c = 201" by auto
  note r = run_fst [OF c(1)]
  from status_tells_the_change [OF mem_gorm_laws mem_driver_errors r] r c(2)
  show ?thesis by (auto simp: response_tells_def)
qed

end
