(* ===== verification/Stale_Reconciler.thy ===== *)
theory Stale_Reconciler
  imports Task_Summarizer
begin

text \<open>
  \<^verbatim>\<open>internal/reconciler/reconciler.go\<close>: the sweep that rescues stranded tasks, and its
  loop, which runs with fuel. The locale \<open>stale_tasks\<close> is the interface it declares,
  with the laws it relies on; the task service provides it.
\<close>

section \<open>The reconciler\<close>

record stale_iface =
  st_FindStale :: "int \<Rightarrow> int \<Rightarrow> int \<Rightarrow> (goerror + task list) prog"
  st_RepublishCreated :: "task \<Rightarrow> goerror option prog"

text \<open>\<open>ro_now\<close> and \<open>r_OnSweep\<close> are functions that may be nil.\<close>

record reconciler_options =
  ro_Interval :: int
  ro_PendingGrace :: int
  ro_ProcessingTimeout :: int
  ro_BatchSize :: int
  ro_now :: "int prog option"

record reconciler =
  r_tasks :: stale_iface
  r_opts :: reconciler_options
  r_OnSweep :: "(int \<Rightarrow> unit prog) option"

definition with_default :: "int \<Rightarrow> int \<Rightarrow> int" where
  "with_default d x = (if x \<le> 0 then d else x)"

definition Reconciler_New :: "stale_iface \<Rightarrow> reconciler_options \<Rightarrow> reconciler" where
  "Reconciler_New tasks opts =
     \<lparr>r_tasks = tasks,
      r_opts = opts\<lparr>
        ro_Interval := with_default (1 * minute) (ro_Interval opts),
        ro_PendingGrace := with_default (5 * minute) (ro_PendingGrace opts),
        ro_ProcessingTimeout := with_default (10 * minute) (ro_ProcessingTimeout opts),
        ro_BatchSize := with_default 100 (ro_BatchSize opts),
        ro_now := Some (case ro_now opts of None \<Rightarrow> TimeNow Return | Some now \<Rightarrow> now)\<rparr>,
      r_OnSweep = None\<rparr>"

text \<open>The loop over the batch: an error is logged and skipped.\<close>

fun republish_all :: "stale_iface \<Rightarrow> task list \<Rightarrow> int \<Rightarrow> int prog" where
  "republish_all T [] rescued = Return rescued"
| "republish_all T (t # ts) rescued =
     pbind (st_RepublishCreated T t) (\<lambda>r. case r of
       Some err \<Rightarrow> republish_all T ts rescued
     | None \<Rightarrow> republish_all T ts (rescued + 1))"

definition reconciler_now :: "reconciler \<Rightarrow> int prog" where
  "reconciler_now r = (case ro_now (r_opts r) of None \<Rightarrow> TimeNow Return | Some now \<Rightarrow> now)"

definition Reconciler_Sweep :: "reconciler \<Rightarrow> (goerror + int) prog" where
  "Reconciler_Sweep r =
     pbind (reconciler_now r) (\<lambda>now.
       pbind (st_FindStale (r_tasks r)
                (now - ro_PendingGrace (r_opts r)) (now - ro_ProcessingTimeout (r_opts r))
                (ro_BatchSize (r_opts r)))
         (\<lambda>res. case res of
            Inl err \<Rightarrow> Return (Inl err)
          | Inr stale \<Rightarrow>
              if length stale = 0 then Return (Inr 0)
              else pbind (republish_all (r_tasks r) stale 0) (\<lambda>n. Return (Inr n))))"

text \<open>
  \<open>Reconciler_Run fuel\<close>: at most \<open>fuel\<close> sweeps; the result is whether the context was
  cancelled. The reply to \<open>SelectDone\<close> says whether the cancellation or the tick came first.
\<close>

primrec Reconciler_Run :: "nat \<Rightarrow> reconciler \<Rightarrow> bool prog" where
  "Reconciler_Run 0 r = Return False"
| "Reconciler_Run (Suc n) r =
     pbind (Reconciler_Sweep r) (\<lambda>res.
       pbind (case r_OnSweep r of
                None \<Rightarrow> Return ()
              | Some f \<Rightarrow> f (case res of Inl err \<Rightarrow> 0 | Inr rescued \<Rightarrow> rescued)) (\<lambda>_.
         SelectDone (ro_Interval (r_opts r)) (\<lambda>done'.
           if done' then Return True else Reconciler_Run n r)))"

lemma Reconciler_New_simps [simp]:
  "r_tasks (Reconciler_New T opts) = T"
  "ro_BatchSize (r_opts (Reconciler_New T opts)) = with_default 100 (ro_BatchSize opts)"
  "ro_PendingGrace (r_opts (Reconciler_New T opts)) = with_default (5 * minute) (ro_PendingGrace opts)"
  "ro_ProcessingTimeout (r_opts (Reconciler_New T opts)) =
     with_default (10 * minute) (ro_ProcessingTimeout opts)"
  "ro_Interval (r_opts (Reconciler_New T opts)) = with_default (1 * minute) (ro_Interval opts)"
  "r_OnSweep (Reconciler_New T opts) = None"
  by (simp_all add: Reconciler_New_def)

section \<open>The contract\<close>

text \<open>
  A republication touches its task's row only, and only resets it to pending; without an
  error the row was reset if the snapshot was processing, and a message for it was confirmed.
\<close>

definition reset_row :: "uuid \<Rightarrow> table \<Rightarrow> table" where
  "reset_row i m = (case m i of None \<Rightarrow> m | Some t \<Rightarrow> m(i \<mapsto> t\<lparr>Status := TaskStatusPending\<rparr>))"

abbreviation to_pending :: "task option \<Rightarrow> task option" where
  "to_pending x \<equiv> map_option (\<lambda>t. t\<lparr>Status := TaskStatusPending\<rparr>) x"

lemma reset_row_simps [simp]: "reset_row i m j = (if j = i then to_pending (m i) else m j)"
  by (simp add: reset_row_def split: option.split)

lemma to_pending_idem [simp]: "to_pending (to_pending x) = to_pending x"
  by (cases x) simp_all

locale stale_tasks =
  fixes T :: stale_iface
    and laws :: "'w env \<Rightarrow> 'w view \<Rightarrow> bool"
    and L :: lib
  assumes find:
      "\<And>r. laws E V \<Longrightarrow> run E (st_FindStale T pb qb limit) w = (r, w') \<Longrightarrow>
       rows V w' = rows V w \<and>
       (case r of
          Inr ts \<Rightarrow> stale_page pb qb (if limit \<le> 0 then 100 else nat limit) (rows V w) ts
        | Inl e \<Rightarrow> True)"
    and republish:
      "\<And>r. laws E V \<Longrightarrow> run E (st_RepublishCreated T t) w = (r, w') \<Longrightarrow>
       (store V w' = store V w \<or>
        Status t = TaskStatusProcessing \<and> store V w' = reset_row (ID t) (store V w)) \<and>
       (case r of
          None \<Rightarrow> (Status t = TaskStatusProcessing \<longrightarrow>
                     store V w (ID t) \<noteq> None \<and> store V w' = reset_row (ID t) (store V w)) \<and>
                   sent_created L E t (log E (st_RepublishCreated T t) w)
        | Some e \<Rightarrow> True)"
begin

lemma republish_all_count:
  "run E (republish_all T ts k) w = (n, w') \<Longrightarrow> k \<le> n \<and> n \<le> k + int (length ts)"
proof (induction ts arbitrary: k w)
  case (Cons t ts)
  obtain r u where r: "run E (st_RepublishCreated T t) w = (r, u)" by fastforce
  from Cons.prems r have "run E (republish_all T ts (if r = None then k + 1 else k)) u = (n, w')"
    by (cases r) simp_all
  from Cons.IH [OF this] show ?case by (auto split: if_splits)
qed simp

lemma sent_created_mono:
  "sent_created L E t xs \<Longrightarrow> set xs \<subseteq> set ys \<Longrightarrow> sent_created L E t ys"
  unfolding sent_created_def confirmed_def by blast

text \<open>What a whole batch does to one row, and when every task of it was republished.\<close>

lemma republish_all_rows:
  assumes "laws E V" "run E (republish_all T ts k) w = (n, w')"
  shows "store V w' i = store V w i \<or>
         (\<exists>t \<in> set ts. ID t = i \<and> Status t = TaskStatusProcessing) \<and>
         store V w' i = to_pending (store V w i)"
  using assms(2)
proof (induction ts arbitrary: k w)
  case (Cons t ts)
  obtain r u where r: "run E (st_RepublishCreated T t) w = (r, u)" by fastforce
  with Cons.prems obtain k' where k': "run E (republish_all T ts k') u = (n, w')"
    by (cases r) auto
  from republish [OF assms(1) r] consider "store V u = store V w"
    | "Status t = TaskStatusProcessing" "store V u = reset_row (ID t) (store V w)" by blast
  then have "store V u i = store V w i \<or>
      ID t = i \<and> Status t = TaskStatusProcessing \<and> store V u i = to_pending (store V w i)"
    by cases auto
  with Cons.IH [OF k'] show ?case by auto
qed simp

lemma republish_all_full:
  assumes "laws E V" "run E (republish_all T ts k) w = (k + int (length ts), w')"
    and "distinct (map ID ts)" "t \<in> set ts"
  shows "sent_created L E t (log E (republish_all T ts k) w) \<and>
         (Status t = TaskStatusProcessing \<longrightarrow>
            store V w (ID t) \<noteq> None \<and> store V w' (ID t) = to_pending (store V w (ID t)))"
  using assms(2-4)
proof (induction ts arbitrary: k w)
  case (Cons s ts)
  obtain r u where r: "run E (st_RepublishCreated T s) w = (r, u)" by fastforce
  have none: "r = None"
  proof (rule ccontr)
    assume "r \<noteq> None"
    with Cons.prems(1) r have "run E (republish_all T ts k) u = (k + int (length (s # ts)), w')"
      by (cases r) simp_all
    from republish_all_count [OF this] show False by simp
  qed
  with Cons.prems(1) r have k': "run E (republish_all T ts (k + 1)) u = (k + 1 + int (length ts), w')"
    by (simp add: algebra_simps)
  have lg: "log E (republish_all T (s # ts) k) w =
      log E (st_RepublishCreated T s) w @ log E (republish_all T ts (k + 1)) u"
    using r none by simp
  note rp = republish [OF assms(1) r, unfolded none option.case]
  have other: "store V u j = store V w j" if "j \<noteq> ID s" for j
    using rp that by auto
  have fresh: "ID t \<noteq> ID s" if "t \<in> set ts" for t
    using Cons.prems(2) that by (auto simp: image_iff)
  show ?case
  proof (cases "t = s")
    case True
    from fresh have "\<not> (\<exists>t \<in> set ts. ID t = ID s)" by blast
    then have later: "store V w' (ID s) = store V u (ID s)"
      using republish_all_rows [OF assms(1) k', of "ID s"] by blast
    have "sent_created L E s (log E (republish_all T (s # ts) k) w)"
      unfolding lg using rp sent_created_mono by fastforce
    with True rp later show ?thesis by auto
  next
    case False
    with Cons.prems fresh have t: "t \<in> set ts" "distinct (map ID ts)" "ID t \<noteq> ID s" by simp_all
    note ih = Cons.IH [OF k' t(2,1)]
    have "sent_created L E t (log E (republish_all T (s # ts) k) w)"
      unfolding lg using ih by simp
    with ih other [OF t(3)] show ?thesis by simp
  qed
qed simp

text \<open>One sweep.\<close>

lemma sweep_effect:
  assumes "laws E V" "\<And>w. rows V (snd (run E (reconciler_now r) w)) = rows V w"
    and "r_tasks r = T" "run E (Reconciler_Sweep r) w = (Inr n, w')"
  shows "\<exists>now u ts.
     run E (reconciler_now r) w = (now, u) \<and>
     stale_page (now - ro_PendingGrace (r_opts r)) (now - ro_ProcessingTimeout (r_opts r))
       (if ro_BatchSize (r_opts r) \<le> 0 then 100 else nat (ro_BatchSize (r_opts r))) (rows V w) ts \<and>
     0 \<le> n \<and> n \<le> int (length ts) \<and>
     (\<forall>i. store V w' i = store V w i \<or>
          (\<exists>t \<in> set ts. ID t = i \<and> Status t = TaskStatusProcessing) \<and>
          store V w' i = to_pending (store V w i)) \<and>
     (n = int (length ts) \<and> distinct (map ID ts) \<longrightarrow>
       (\<forall>t \<in> set ts. sent_created L E t (log E (Reconciler_Sweep r) w) \<and>
          (Status t = TaskStatusProcessing \<longrightarrow> store V w' (ID t) = to_pending (store V w (ID t)))))"
proof -
  let ?o = "r_opts r"
  obtain now u where now: "run E (reconciler_now r) w = (now, u)" by fastforce
  obtain x v where x: "run E (st_FindStale T (now - ro_PendingGrace ?o) (now - ro_ProcessingTimeout ?o)
      (ro_BatchSize ?o)) u = (x, v)" by fastforce
  with assms(3,4) now obtain ts where ts: "x = Inr ts"
    by (cases x) (auto simp: Reconciler_Sweep_def)
  have same: "rows V v = rows V w" "store V v = store V w"
    using assms(2) [of w] now find [OF assms(1) x] by (simp_all add: store_def)
  have page: "stale_page (now - ro_PendingGrace ?o) (now - ro_ProcessingTimeout ?o)
       (if ro_BatchSize ?o \<le> 0 then 100 else nat (ro_BatchSize ?o)) (rows V w) ts"
    using find [OF assms(1) x] ts assms(2) [of w] now by simp
  have rp: "run E (republish_all T ts 0) v = (n, w')"
    using assms(3,4) now x ts
    by (cases ts) (auto simp: Reconciler_Sweep_def split: prod.splits)
  have lg: "set (log E (republish_all T ts 0) v) \<subseteq> set (log E (Reconciler_Sweep r) w)"
    using assms(3) now x ts by (cases ts) (auto simp: Reconciler_Sweep_def split: prod.splits)
  have "sent_created L E t (log E (Reconciler_Sweep r) w) \<and>
      (Status t = TaskStatusProcessing \<longrightarrow> store V w' (ID t) = to_pending (store V w (ID t)))"
    if "n = int (length ts)" "distinct (map ID ts)" "t \<in> set ts" for t
    using republish_all_full [OF assms(1), of ts 0 v w' t] rp that same sent_created_mono [where E = E, OF _ lg]
    by simp
  with now page republish_all_count [OF rp] republish_all_rows [OF assms(1) rp] same
  show ?thesis by (intro exI [of _ now] exI [of _ u] exI [of _ ts]) simp
qed

end

section \<open>The service provides it\<close>

definition service_tasks :: "lib \<Rightarrow> task_service \<Rightarrow> stale_iface" where
  "service_tasks L s =
     \<lparr>st_FindStale = TaskService_FindStale s, st_RepublishCreated = TaskService_RepublishCreated L s\<rparr>"

lemma service_tasks_simps [simp]:
  "st_FindStale (service_tasks L s) = TaskService_FindStale s"
  "st_RepublishCreated (service_tasks L s) = TaskService_RepublishCreated L s"
  by (simp_all add: service_tasks_def)

lemma reset_row_status: "reset_row i m = snd (status_abs i TaskStatusPending '''' m)"
  by (simp add: reset_row_def status_abs_def split: option.split)

context service_stack
begin

lemma rescue_laws: "stale_tasks (service_tasks L svc) laws L"
proof unfold_locales
  fix E :: "'w env" and V :: "'w view" and pb qb limit w w'
    and r :: "goerror + task list"
  assume "laws E V" "run E (st_FindStale (service_tasks L svc) pb qb limit) w = (r, w')"
  then show "rows V w' = rows V w \<and>
       (case r of
          Inr ts \<Rightarrow> stale_page pb qb (if limit \<le> 0 then 100 else nat limit) (rows V w) ts
        | Inl e \<Rightarrow> True)"
    using stale [of E V pb qb limit w r w'] by (cases r) (simp_all add: TaskService_FindStale_def)
next
  fix E :: "'w env" and V :: "'w view" and t w w' and r :: "goerror option"
  assume l: "laws E V" and r: "run E (st_RepublishCreated (service_tasks L svc) t) w = (r, w')"
  show "(store V w' = store V w \<or>
        Status t = TaskStatusProcessing \<and> store V w' = reset_row (ID t) (store V w)) \<and>
       (case r of
          None \<Rightarrow> (Status t = TaskStatusProcessing \<longrightarrow>
                     store V w (ID t) \<noteq> None \<and> store V w' = reset_row (ID t) (store V w)) \<and>
                   sent_created L E t (log E (st_RepublishCreated (service_tasks L svc) t) w)
        | Some e \<Rightarrow> True)"
    using Republish_any [OF l r [simplified]] Republish_resets [OF l, of L t w w'] r
    by (cases r) (auto simp: reset_row_status [symmetric] reset_row_def split: option.splits)
qed

end

interpretation service_rescue: stale_tasks "service_tasks L (production_service b)" gorm_laws L for L b
  by (rule stack.rescue_laws)

sublocale service_stack \<subseteq> rescue: stale_tasks "service_tasks L svc" laws L for L
  by (rule rescue_laws)

section \<open>Properties\<close>

abbreviation production_reconciler ::
  "lib \<Rightarrow> broker \<Rightarrow> reconciler_options \<Rightarrow> reconciler" where
  "production_reconciler L b opts \<equiv> Reconciler_New (service_tasks L (production_service b)) opts"

lemma with_default_pos: "0 < d \<Longrightarrow> 0 < with_default d x"
  by (simp add: with_default_def)

text \<open>
  The options are usable whatever was configured: after \<^verbatim>\<open>New\<close> the interval, the
  grace periods and the batch size are positive, values that were positive are kept, and
  there is a clock.
\<close>

lemma Reconciler_New_defaults:
  "0 < ro_Interval (r_opts (Reconciler_New T opts)) \<and>
   0 < ro_PendingGrace (r_opts (Reconciler_New T opts)) \<and>
   0 < ro_ProcessingTimeout (r_opts (Reconciler_New T opts)) \<and>
   0 < ro_BatchSize (r_opts (Reconciler_New T opts)) \<and>
   ro_now (r_opts (Reconciler_New T opts)) \<noteq> None \<and>
   (ro_Interval opts \<le> 0 \<or> ro_Interval (r_opts (Reconciler_New T opts)) = ro_Interval opts) \<and>
   (ro_PendingGrace opts \<le> 0 \<or>
      ro_PendingGrace (r_opts (Reconciler_New T opts)) = ro_PendingGrace opts) \<and>
   (ro_ProcessingTimeout opts \<le> 0 \<or>
      ro_ProcessingTimeout (r_opts (Reconciler_New T opts)) = ro_ProcessingTimeout opts) \<and>
   (ro_BatchSize opts \<le> 0 \<or> ro_BatchSize (r_opts (Reconciler_New T opts)) = ro_BatchSize opts)"
  by (simp add: Reconciler_New_def with_default_def)

lemma stale_page_rows:
  assumes "table_ok m" "stale_page pb qb n m ts"
  shows "distinct (map ID ts) \<and> length ts \<le> n \<and>
         (\<forall>t \<in> set ts. m (ID t) = Some t \<and> is_stale pb qb t)"
proof -
  obtain all where all: "distinct all" "set all = {t \<in> ran m. is_stale pb qb t}" and ts: "ts = take n all"
    using assms(2) by (auto simp: stale_page_def)
  have row: "m (ID t) = Some t \<and> is_stale pb qb t" if "t \<in> set ts" for t
    using that all(2) ts assms(1) by (auto simp: ran_def table_ok_def dest!: in_set_takeD)
  have "inj_on ID (set ts)"
    by (rule inj_onI) (metis row option.inject)
  with all(1) ts row show ?thesis by (simp add: distinct_map)
qed

lemma production_now:
  "ro_now opts = None \<Longrightarrow> reconciler_now (production_reconciler L b opts) = TimeNow Return"
  by (simp add: reconciler_now_def Reconciler_New_def)

text \<open>One sweep of the production reconciler: the page it took, and what it did to the rows.\<close>

lemma production_sweep:
  assumes "gorm_laws E V" "ro_now opts = None" "on_now E w = (now, u)"
    and "run E (Reconciler_Sweep (production_reconciler L b opts)) w = (Inr n, w')"
  shows "\<exists>ts. stale_page (now - with_default (5 * minute) (ro_PendingGrace opts))
      (now - with_default (10 * minute) (ro_ProcessingTimeout opts))
      (nat (with_default 100 (ro_BatchSize opts))) (rows V w) ts \<and>
     distinct (map ID ts) \<and> 0 \<le> n \<and> n \<le> int (length ts) \<and>
     (\<forall>i. store V w' i = store V w i \<or>
        (\<exists>t \<in> set ts. ID t = i \<and> Status t = TaskStatusProcessing) \<and>
        store V w' i = to_pending (store V w i)) \<and>
     (n = int (length ts) \<longrightarrow>
       (\<forall>t \<in> set ts.
          sent_created L E t (log E (Reconciler_Sweep (production_reconciler L b opts)) w) \<and>
          (Status t = TaskStatusProcessing \<longrightarrow>
             store V w' (ID t) = to_pending (store V w (ID t)))))"
proof -
  let ?r = "production_reconciler L b opts"
  have quiet: "rows V (snd (run E (reconciler_now ?r) w)) = rows V w" for w
    using rows_frame [OF assms(1), of "TimeNow Return" w]
    by (cases "on_now E w") (simp add: production_now [OF assms(2)])
  have b: "\<not> with_default 100 (ro_BatchSize opts) \<le> 0"
    using with_default_pos [of 100 "ro_BatchSize opts"] by linarith
  have now: "run E (reconciler_now ?r) w = (now, u)" using assms(3) by (simp add: production_now [OF assms(2)])
  from service_rescue.sweep_effect [OF assms(1) quiet Reconciler_New_simps(1) assms(4)]
  obtain ts where page: "stale_page (now - with_default (5 * minute) (ro_PendingGrace opts))
      (now - with_default (10 * minute) (ro_ProcessingTimeout opts))
      (nat (with_default 100 (ro_BatchSize opts))) (rows V w) ts"
    and rest: "0 \<le> n" "n \<le> int (length ts)"
      "\<forall>i. store V w' i = store V w i \<or>
        (\<exists>t \<in> set ts. ID t = i \<and> Status t = TaskStatusProcessing) \<and>
        store V w' i = to_pending (store V w i)"
      "n = int (length ts) \<and> distinct (map ID ts) \<longrightarrow>
       (\<forall>t \<in> set ts. sent_created L E t (log E (Reconciler_Sweep ?r) w) \<and>
          (Status t = TaskStatusProcessing \<longrightarrow> store V w' (ID t) = to_pending (store V w (ID t))))"
    unfolding Reconciler_New_simps now if_not_P [OF b] prod.inject
    by (elim exE conjE) (rule that, simp_all)
  with stale_page_rows [OF gorm_table_ok [OF assms(1)] page] show ?thesis
    by (intro exI [of _ ts]) simp
qed

text \<open>
  C4: What a sweep does. A sweep that reports no error read the clock and took a page of the
  rows that were stale then, at most the batch size; the number it returns is at most the
  length of the page. It changes no row except by resetting to pending a processing row of
  the page. If the number is the length of the page, every task of the page has had a
  task.created message confirmed by the broker, and every processing one is pending again.
\<close>

theorem Sweep_rescues:
  assumes "gorm_laws E V" and "ro_now opts = None"
    and "run E (Reconciler_Sweep (production_reconciler L b opts)) w = (Inr n, w')"
  shows "\<exists>now ts.
     ENow now \<in> set (log E (Reconciler_Sweep (production_reconciler L b opts)) w) \<and>
     distinct ts \<and> 0 \<le> n \<and> n \<le> int (length ts) \<and>
     int (length ts) \<le> with_default 100 (ro_BatchSize opts) \<and>
     (\<forall>t \<in> set ts. rows V w (ID t) = Some t \<and>
        is_stale (now - with_default (5 * minute) (ro_PendingGrace opts))
                 (now - with_default (10 * minute) (ro_ProcessingTimeout opts)) t) \<and>
     (\<forall>i. store V w' i = store V w i \<or>
        (\<exists>t \<in> set ts. ID t = i \<and> Status t = TaskStatusProcessing) \<and>
        store V w' i = to_pending (store V w i)) \<and>
     (n = int (length ts) \<longrightarrow>
       (\<forall>t \<in> set ts.
          sent_created L E t (log E (Reconciler_Sweep (production_reconciler L b opts)) w) \<and>
          (Status t = TaskStatusProcessing \<longrightarrow>
             store V w' (ID t) = to_pending (store V w (ID t)))))"
proof -
  obtain now u where now: "on_now E w = (now, u)" by fastforce
  from production_sweep [OF assms(1,2) now assms(3)] obtain ts
    where page: "stale_page (now - with_default (5 * minute) (ro_PendingGrace opts))
      (now - with_default (10 * minute) (ro_ProcessingTimeout opts))
      (nat (with_default 100 (ro_BatchSize opts))) (rows V w) ts"
    and d: "distinct (map ID ts)" and rest: "0 \<le> n" "n \<le> int (length ts)"
      "\<forall>i. store V w' i = store V w i \<or>
        (\<exists>t \<in> set ts. ID t = i \<and> Status t = TaskStatusProcessing) \<and>
        store V w' i = to_pending (store V w i)"
      "n = int (length ts) \<longrightarrow>
       (\<forall>t \<in> set ts. sent_created L E t (log E (Reconciler_Sweep (production_reconciler L b opts)) w) \<and>
          (Status t = TaskStatusProcessing \<longrightarrow> store V w' (ID t) = to_pending (store V w (ID t))))"
    by blast
  note pg = stale_page_rows [OF gorm_table_ok [OF assms(1)] page]
  have "0 < with_default 100 (ro_BatchSize opts)" by (simp add: with_default_pos)
  with pg have "int (length ts) \<le> with_default 100 (ro_BatchSize opts)" by auto
  moreover have "ENow now \<in> set (log E (Reconciler_Sweep (production_reconciler L b opts)) w)"
    using now by (auto simp: Reconciler_Sweep_def production_now [OF assms(2)] split: prod.splits)
  ultimately show ?thesis
    using pg d rest
    by (intro exI [of _ now] exI [of _ ts]) (simp add: distinct_map)
qed

definition sample_options :: reconciler_options where
  "sample_options =
     \<lparr>ro_Interval = 1, ro_PendingGrace = 1, ro_ProcessingTimeout = 1, ro_BatchSize = 10,
      ro_now = None\<rparr>"

theorem Sweep_rescues_witness:
  "\<exists>w'. run mem_env (Reconciler_Sweep (production_reconciler mem_lib sample_broker sample_options))
          (mem_with [sample_task TaskStatusProcessing]) = (Inr 1, w') \<and>
        (\<exists>ts. length ts \<ge> 1 \<and> (\<forall>t \<in> set ts.
           mem_rows (mem_with [sample_task TaskStatusProcessing]) (ID t) = Some t))"
proof -
  let ?p = "Reconciler_Sweep (production_reconciler mem_lib sample_broker sample_options)"
  let ?w = "mem_with [sample_task TaskStatusProcessing]"
  have "fst (run mem_env ?p ?w) = Inr 1" by code_simp
  note r = run_fst [OF this]
  have "ro_now sample_options = None" by (simp add: sample_options_def)
  from Sweep_rescues [OF mem_gorm_laws this r] r show ?thesis by fastforce
qed

text \<open>The calls that matter for the order of a republication.\<close>

fun row_reset :: "uuid \<Rightarrow> event \<Rightarrow> bool" where
  "row_reset i (EExec (Updates c as) (Inr n)) \<longleftrightarrow>
     c = IdIs i \<and> as = [SetStatus TaskStatusPending] \<and> n \<noteq> 0"
| "row_reset i ev \<longleftrightarrow> False"

fun reset_first :: "uuid \<Rightarrow> event list \<Rightarrow> event \<Rightarrow> bool" where
  "reset_first i before (EAmqp c r) \<longleftrightarrow> list_ex (row_reset i) before"
| "reset_first i before ev \<longleftrightarrow> True"

text \<open>
  C24: A stranded task is reset before its message goes out. Whatever the services reply,
  republishing a task that was found processing makes no call to the broker before a status
  update has set a row of that task to pending, so the message cannot reach a worker while
  the task is unclaimable because of the old claim; republishing any other task does not
  touch the database.
\<close>

theorem Republish_resets_first:
  "if Status t = TaskStatusProcessing
   then always (reset_first (ID t)) [] (TaskService_RepublishCreated L (production_service b) t)
   else only (\<lambda>ev. \<not> db_event ev) (TaskService_RepublishCreated L (production_service b) t)"
proof -
  have pub: "always (reset_first (ID t)) h (TaskService_emitCreated L (production_service b) t)"
    if "list_ex (row_reset (ID t)) h" for h
  proof -
    have "only (\<lambda>ev. True) (TaskService_emitCreated L (production_service b) t)"
      by (rule only_mono [OF stack.emitCreated_quiet]) simp
    then have "always (\<lambda>before ev. True) [] (TaskService_emitCreated L (production_service b) t)"
      by (rule only_always) simp
    then have "always (reset_first (ID t)) (h @ []) (TaskService_emitCreated L (production_service b) t)"
    proof (rule always_shift)
      show "reset_first (ID t) (h @ h') e" for h' e
        using that by (cases e) simp_all
    qed
    then show ?thesis by simp
  qed
  show ?thesis
  proof (cases "Status t = TaskStatusProcessing")
    case True
    have "always (reset_first (ID t)) [EExec (Updates (IdIs (ID t)) [SetStatus TaskStatusPending]) (Inr n), ERedis c e]
        (TaskService_emitCreated L (production_service b) t)" if "n \<noteq> 0" for n c e
      by (rule pub) (simp add: that)
    then show ?thesis
      using True
      by (simp add: TaskService_RepublishCreated_def TaskService_MarkPending_def
          taskRepository_UpdateStatus_def Let_def split: sum.split)
  next
    case False
    then show ?thesis using stack.emitCreated_quiet by (simp add: TaskService_RepublishCreated_def)
  qed
qed

text \<open>
  C25: What is republished reaches the handler intact. If the text forms of times and UUIDs
  round-trip, a task.created message the service has had confirmed is decoded by the
  worker's handler as a task.created message with exactly the task's identifier, title and
  description, under an event ID that is a fresh UUID.
\<close>

theorem confirmed_message_decodes:
  assumes "lib_ok L" and "clock_laws E V" and "uuid_wf (ID t)" and "sent_created L E t evs"
  shows "\<exists>x p u. EAmqp (PublishConfirm x RoutingTaskCreated p) None \<in> set evs \<and>
           message_of L (p_Body p) = Some (uuid_String u, created_payload_of t) \<and> u \<noteq> uuid_Nil"
proof -
  obtain x body y where r: "run E (event_New L RoutingTaskCreated (marshal_created (created_payload_of t))) x =
      (Inr body, y)" and c: "confirmed RoutingTaskCreated body evs"
    using assms(4) unfolding sent_created_def by blast
  have "uuid_wf (pl_TaskID (created_payload_of t))" using assms(3) by (simp add: created_payload_of_def)
  from event_New_decodes [OF assms(1,2) this r] obtain env u
    where "unmarshal_envelope L body = Inr env" "env_Type env = RoutingTaskCreated"
      "unmarshal_created L (payload_bytes env) = Inr (created_payload_of t)"
      "env_ID env = uuid_String u" "u \<noteq> uuid_Nil" by blast
  then have "message_of L body = Some (uuid_String u, created_payload_of t)" "u \<noteq> uuid_Nil"
    by (simp_all add: message_of_def)
  with c show ?thesis unfolding confirmed_def by blast
qed

theorem confirmed_message_decodes_witness:
  "\<exists>x p u. EAmqp (PublishConfirm x RoutingTaskCreated p) None \<in>
           set (log mem_env (TaskService_emitCreated mem_lib (production_service sample_broker)
             (sample_task TaskStatusPending)) mem_empty) \<and>
         message_of mem_lib (p_Body p) =
           Some (uuid_String u, created_payload_of (sample_task TaskStatusPending))"
proof -
  let ?t = "sample_task TaskStatusPending"
  let ?p = "TaskService_emitCreated mem_lib (production_service sample_broker) ?t"
  have "fst (run mem_env ?p mem_empty) = None" by code_simp
  then have s: "sent_created mem_lib mem_env ?t (log mem_env ?p mem_empty)"
    by (rule stack.emitCreated_sent [OF mem_gorm_laws run_fst])
  have id: "uuid_wf (ID ?t)" by (simp add: sample_task_def sample_id_def mem_uuid_ok)
  from confirmed_message_decodes [OF mem_lib_ok mem_clock_laws id s] obtain x p u
    where ev: "EAmqp (PublishConfirm x RoutingTaskCreated p) None \<in> set (log mem_env ?p mem_empty)"
      and m: "message_of mem_lib (p_Body p) = Some (uuid_String u, created_payload_of ?t)" by blast
  with ev m show ?thesis by blast
qed

text \<open>
  C28: A rescued task stays stale. Republishing a task found processing leaves its creation
  time, so if the task was created before the pending bound of a sweep, its row is stale
  again, by the same bounds, as soon as it has been republished: the grace period counts from
  the creation and not from the moment the task became pending.
\<close>

theorem rescued_task_still_stale:
  assumes "gorm_laws E V" and "Status t = TaskStatusProcessing"
    and "run E (TaskService_RepublishCreated L (production_service b) t) w = (None, w')"
    and "rows V w (ID t) = Some row" and "CreatedAt row < pendingBefore"
  shows "\<exists>row'. rows V w' (ID t) = Some row' \<and> CreatedAt row' = CreatedAt row \<and>
           Status row' = TaskStatusPending \<and> is_stale pendingBefore processingBefore row'"
proof -
  let ?s = "Updates (IdIs (ID t)) [SetStatus TaskStatusPending]"
  obtain n u where u: "on_exec E ?s w = (Inr n, u)" and n: "n \<noteq> 0"
    and rest: "run E (RedisDo (Del (task_key (ID t))) (\<lambda>_. TaskService_emitCreated L (production_service b) t)) u =
        (None, w')"
    using assms(2,3)
    by (auto simp: TaskService_RepublishCreated_def TaskService_MarkPending_def
        taskRepository_UpdateStatus_def Let_def split: prod.splits sum.splits if_splits)
  have "only (\<lambda>ev. \<not> db_event ev)
      (RedisDo (Del (task_key (ID t))) (\<lambda>_. TaskService_emitCreated L (production_service b) t))"
    using stack.emitCreated_quiet by simp
  from rows_frame [OF assms(1) this rest] have "rows V w' = rows V u" .
  moreover obtain ts where "rows V u = stmt_effect ts ?s (rows V w)"
    using assms(1) u by (rule exec_Inr)
  moreover have "table_ok (rows V w)" by (rule gorm_table_ok [OF assms(1)])
  ultimately show ?thesis
    using assms(4,5) by (simp add: law_simps is_stale_def)
qed

theorem rescued_task_still_stale_witness:
  "\<exists>w' row'. run mem_env (TaskService_RepublishCreated mem_lib (production_service sample_broker)
             (sample_task TaskStatusProcessing)) (mem_with [sample_task TaskStatusProcessing]) = (None, w') \<and>
           mem_rows w' sample_id = Some row' \<and> is_stale 11 0 row'"
proof -
  let ?t = "sample_task TaskStatusProcessing"
  let ?p = "TaskService_RepublishCreated mem_lib (production_service sample_broker) ?t"
  have "fst (run mem_env ?p (mem_with [?t])) = None" by code_simp
  note r = run_fst [OF this]
  have id: "ID ?t = sample_id" "Status ?t = TaskStatusProcessing" "CreatedAt ?t < 11"
    by (simp_all add: sample_task_def)
  have row: "rows mem_view (mem_with [?t]) (ID ?t) = Some ?t" by code_simp
  from rescued_task_still_stale [OF mem_gorm_laws id(2) r row id(3), of 0] r
  show ?thesis unfolding id(1) mem_view_simps by blast
qed

section \<open>The loop\<close>

fun find_event :: "event \<Rightarrow> bool" where
  "find_event (EFind _ _) \<longleftrightarrow> True"
| "find_event _ \<longleftrightarrow> False"

fun tick_event :: "int \<Rightarrow> event \<Rightarrow> bool" where
  "tick_event d (ESelect d' c) \<longleftrightarrow> d' = d"
| "tick_event d _ \<longleftrightarrow> False"

fun select_event :: "event \<Rightarrow> bool" where
  "select_event (ESelect _ _) \<longleftrightarrow> True"
| "select_event _ \<longleftrightarrow> False"

fun cancel_event :: "event \<Rightarrow> bool" where
  "cancel_event (ESelect _ c) \<longleftrightarrow> c"
| "cancel_event _ \<longleftrightarrow> False"

definition finds :: "event list \<Rightarrow> nat" where
  "finds evs = length (filter find_event evs)"

lemma finds_simps [simp]:
  "finds [] = 0" "finds (ev # evs) = (if find_event ev then Suc (finds evs) else finds evs)"
  "finds (xs @ ys) = finds xs + finds ys"
  by (simp_all add: finds_def)

definition loop_quiet :: "event \<Rightarrow> bool" where
  "loop_quiet ev \<longleftrightarrow> \<not> find_event ev \<and> \<not> select_event ev"

lemma quiet_loop_log:
  assumes "only loop_quiet p"
  shows "finds (log E p w) = 0" "\<not> list_ex cancel_event (log E p w)"
    "filter select_event (log E p w) = []"
proof -
  have q: "\<not> find_event ev" "\<not> select_event ev" if "ev \<in> set (log E p w)" for ev
    using only_log [OF assms that] by (simp_all add: loop_quiet_def)
  then show "finds (log E p w) = 0" "filter select_event (log E p w) = []"
    by (auto simp: finds_def filter_empty_conv)
  have "\<not> cancel_event ev" if "\<not> select_event ev" for ev using that by (cases ev) simp_all
  with q show "\<not> list_ex cancel_event (log E p w)" by (auto simp: list_ex_iff)
qed

lemma Republish_loop_quiet: "only loop_quiet (TaskService_RepublishCreated L (production_service b) t)"
  by (simp add: TaskService_RepublishCreated_def TaskService_MarkPending_def TaskService_emitCreated_def
      taskRepository_UpdateStatus_def event_New_def marshal_created_def Broker_Publish_def Let_def
      loop_quiet_def split: sum.split option.split)

lemma republish_all_loop_quiet:
  "only loop_quiet (republish_all (service_tasks L (production_service b)) ts k)"
  by (induction ts arbitrary: k)
     (auto intro!: only_pbind Republish_loop_quiet split: option.split)

lemma Sweep_log:
  assumes "ro_now opts = None"
  shows "finds (log E (Reconciler_Sweep (production_reconciler L b opts)) w) = 1"
    "\<not> list_ex cancel_event (log E (Reconciler_Sweep (production_reconciler L b opts)) w)"
    "filter select_event (log E (Reconciler_Sweep (production_reconciler L b opts)) w) = []"
  by (simp_all add: quiet_loop_log [OF republish_all_loop_quiet]
      Reconciler_Sweep_def production_now [OF assms] TaskService_FindStale_def
      taskRepository_FindStale_def Let_def split: prod.split sum.split)

lemma Run_log:
  assumes "ro_now opts = None"
  shows "(fst (run E (Reconciler_Run n (production_reconciler L b opts)) w) \<longleftrightarrow>
            list_ex cancel_event (log E (Reconciler_Run n (production_reconciler L b opts)) w)) \<and>
         finds (log E (Reconciler_Run n (production_reconciler L b opts)) w) =
           length (filter select_event (log E (Reconciler_Run n (production_reconciler L b opts)) w)) \<and>
         finds (log E (Reconciler_Run n (production_reconciler L b opts)) w) \<le> n \<and>
         (fst (run E (Reconciler_Run n (production_reconciler L b opts)) w) \<or>
          finds (log E (Reconciler_Run n (production_reconciler L b opts)) w) = n) \<and>
         list_all (tick_event (with_default (1 * minute) (ro_Interval opts)))
           (filter select_event (log E (Reconciler_Run n (production_reconciler L b opts)) w))"
proof (induction n arbitrary: w)
  case (Suc n)
  obtain x u where x: "run E (Reconciler_Sweep (production_reconciler L b opts)) w = (x, u)" by fastforce
  obtain c v where c: "on_select E (with_default (1 * minute) (ro_Interval opts)) u = (c, v)" by fastforce
  note sw = Sweep_log [OF assms, of E L b w]
  show ?case
    using x c sw Suc.IH [of v] by (cases c) auto
qed simp

text \<open>
  C29: A failing sweep does not end the loop. Run with fuel for \<open>n\<close> sweeps, the loop returns
  early exactly when one of its waits was cancelled; otherwise it has queried the database
  for stale tasks \<open>n\<close> times, whatever errors the sweeps met. Each query is followed by one
  wait, of the configured interval (one minute when it is not positive), and the first sweep
  comes before the first wait.
\<close>

theorem Run_survives_errors:
  assumes "ro_now opts = None"
  shows "(fst (run E (Reconciler_Run n (production_reconciler L b opts)) w) \<longleftrightarrow>
            list_ex cancel_event (log E (Reconciler_Run n (production_reconciler L b opts)) w)) \<and>
         finds (log E (Reconciler_Run n (production_reconciler L b opts)) w) =
           length (filter select_event (log E (Reconciler_Run n (production_reconciler L b opts)) w)) \<and>
         (if fst (run E (Reconciler_Run n (production_reconciler L b opts)) w)
          then finds (log E (Reconciler_Run n (production_reconciler L b opts)) w) \<le> n
          else finds (log E (Reconciler_Run n (production_reconciler L b opts)) w) = n) \<and>
         list_all (tick_event (with_default (1 * minute) (ro_Interval opts)))
           (filter select_event (log E (Reconciler_Run n (production_reconciler L b opts)) w))"
  using Run_log [OF assms, of E n L b w] by auto

theorem Run_survives_errors_witness:
  "finds (log mem_env (Reconciler_Run 2 (production_reconciler mem_lib sample_broker sample_options))
     (mem_empty\<lparr>m_faults := [True]\<rparr>)) = 2"
proof -
  let ?p = "Reconciler_Run 2 (production_reconciler mem_lib sample_broker sample_options)"
  let ?w = "mem_empty\<lparr>m_faults := [True]\<rparr>"
  have nf: "\<not> fst (run mem_env ?p ?w)" by code_simp
  have opts: "ro_now sample_options = None" by (simp add: sample_options_def)
  from Run_survives_errors [OF opts, of mem_env 2 mem_lib sample_broker ?w,
      THEN conjunct2, THEN conjunct2, THEN conjunct1]
  show ?thesis unfolding if_not_P [OF nf] .
qed

end
