(* ===== verification/Service_Start.thy ===== *)
theory Service_Start
  imports Http_Store Stale_Reconciler App_Config
begin

text \<open>
  \<^verbatim>\<open>cmd/api/main.go\<close> with \<^verbatim>\<open>internal/storage\<close> and \<^verbatim>\<open>internal/logger\<close>: how the process
  starts, what it wires together, and how it stops. A deferred call runs when its function
  returns, in the reverse order of the \<^verbatim>\<open>defer\<close> statements. The goroutines are started by
  calls of their own (the consumer's by \<open>NewConsumer\<close>); what they do is not part of the
  start. Which of the three channels ends the wait is a parameter.
\<close>

section \<open>Logger\<close>

datatype slog_level = LevelDebug | LevelInfo | LevelWarn | LevelError

record logger =
  lg_level :: slog_level
  lg_json :: bool
  lg_attrs :: "string list"

text \<open>
  \<^verbatim>\<open>strings.ToLower\<close>, as far as the result can be an ASCII text: besides the ASCII letters,
  the dotted capital I and the Kelvin sign have ASCII letters as their lower case.
\<close>

definition ascii_lower :: "char \<Rightarrow> char" where
  "ascii_lower c =
     (let n = of_char c :: nat in if 65 \<le> n \<and> n \<le> 90 then char_of (n + 32) else c)"

fun ToLower :: "string \<Rightarrow> string" where
  "ToLower [] = []"
| "ToLower (c # cs) =
     (if c = CHR 0xC4 \<and> take 1 cs = [CHR 0xB0] then CHR ''i'' # ToLower (drop 1 cs)
      else if c = CHR 0xE2 \<and> take 2 cs = [CHR 0x84, CHR 0xAA] then CHR ''k'' # ToLower (drop 2 cs)
      else ascii_lower c # ToLower cs)"

definition logger_New :: "string \<Rightarrow> string \<Rightarrow> logger" where
  "logger_New level env =
     (let l = ToLower level;
          lv = (if l = ''debug'' then LevelDebug
                else if l = ''warn'' \<or> l = ''warning'' then LevelWarn
                else if l = ''error'' then LevelError
                else LevelInfo)
      in \<lparr>lg_level = lv, lg_json = (env = ''production''), lg_attrs = []\<rparr>)"

definition logger_With :: "logger \<Rightarrow> string list \<Rightarrow> logger" where
  "logger_With l args = l\<lparr>lg_attrs := lg_attrs l @ args\<rparr>"

text \<open>
  A record that a logger writes, if its level is enabled; \<^verbatim>\<open>Fatal\<close> then ends the process
  with the given status.
\<close>

fun level_rank :: "slog_level \<Rightarrow> int" where
  "level_rank LevelDebug = - 4"
| "level_rank LevelInfo = 0"
| "level_rank LevelWarn = 4"
| "level_rank LevelError = 8"

definition logger_log ::
  "logger \<Rightarrow> slog_level \<Rightarrow> string \<Rightarrow> string list \<Rightarrow> (slog_level \<times> string \<times> string list) option" where
  "logger_log l lv msg args =
     (if level_rank (lg_level l) \<le> level_rank lv then Some (lv, msg, lg_attrs l @ args) else None)"

definition logger_Fatal ::
  "logger \<Rightarrow> string \<Rightarrow> string list \<Rightarrow> (slog_level \<times> string \<times> string list) option \<times> int" where
  "logger_Fatal l msg args = (logger_log l LevelError msg args, 1)"

text \<open>The last message of a process is never filtered.\<close>

lemma Fatal_is_written: "fst (logger_Fatal l msg args) \<noteq> None"
  by (cases "lg_level l") (simp_all add: logger_Fatal_def logger_log_def)

text \<open>A context and the values added to it, of which only the logger matters.\<close>

datatype go_context = Background | WithValue go_context "logger option" | WithOther go_context

fun context_logger :: "go_context \<Rightarrow> logger option" where
  "context_logger Background = None"
| "context_logger (WithValue ctx l) = l"
| "context_logger (WithOther ctx) = context_logger ctx"

definition WithContext :: "go_context \<Rightarrow> logger option \<Rightarrow> go_context" where
  "WithContext ctx l = WithValue ctx l"

definition FromContext :: "go_context option \<Rightarrow> logger option \<Rightarrow> logger option" where
  "FromContext ctx fallback =
     (case ctx of
        None \<Rightarrow> fallback
      | Some c \<Rightarrow> (case context_logger c of Some l \<Rightarrow> Some l | None \<Rightarrow> fallback))"

section \<open>Storage\<close>

definition NewPostgres :: "db_config \<Rightarrow> bool \<Rightarrow> goerror option prog" where
  "NewPostgres cfg isProd =
     (let logLevel = (if \<not> isProd then LogInfo else LogWarn)
      in Boot (GormOpen (DSN cfg) logLevel) (\<lambda>r. case r of
           Some err \<Rightarrow> Return (Some (errorf ''postgres: open'' err))
         | None \<Rightarrow>
             Boot GormDB (\<lambda>r. case r of
               Some err \<Rightarrow> Return (Some (errorf ''postgres: underlying sql.DB'' err))
             | None \<Rightarrow>
                 Boot (SetPool (db_MaxOpenConns cfg) (db_MaxIdleConns cfg) (db_ConnMaxLifetime cfg))
                   (\<lambda>_. Boot PingDB (\<lambda>r. case r of
                      Some err \<Rightarrow> Return (Some (errorf ''postgres: ping'' err))
                    | None \<Rightarrow> Return None)))))"

definition NewRedis :: "redis_config \<Rightarrow> goerror option prog" where
  "NewRedis cfg =
     Boot (NewRedisClient (redis_Addr cfg) (redis_Password cfg) (redis_DB cfg))
       (\<lambda>_. RedisDo PingRedis (\<lambda>r. case r of
          Some err \<Rightarrow> Return (Some (errorf ''redis: ping'' err))
        | None \<Rightarrow> Return None))"

section \<open>Wiring\<close>

definition rateLimitRequests :: int where "rateLimitRequests = 100"
definition rateLimitWindow :: int where "rateLimitWindow = 60 * second"

definition reconciler_options_of :: "reconciler_config \<Rightarrow> reconciler_options" where
  "reconciler_options_of rc =
     \<lparr>ro_Interval = rc_Interval rc, ro_PendingGrace = rc_PendingGrace rc,
      ro_ProcessingTimeout = rc_ProcessingTimeout rc, ro_BatchSize = rc_BatchSize rc, ro_now = None\<rparr>"

definition broker_options_of :: "broker_config \<Rightarrow> broker_options" where
  "broker_options_of bc =
     \<lparr>opt_URL = bc_URL bc, opt_Exchange = bc_Exchange bc, opt_Prefetch = bc_Prefetch bc\<rparr>"

record fiber_app =
  fa_AppName :: string
  fa_ReadTimeout :: int
  fa_WriteTimeout :: int
  fa_IdleTimeout :: int
  fa_DisableStartupMessage :: bool
  fa_includeDetail :: bool

definition newFiberApp :: "config \<Rightarrow> fiber_app" where
  "newFiberApp cfg =
     \<lparr>fa_AppName = app_Name (cfg_App cfg), fa_ReadTimeout = http_ReadTimeout (cfg_HTTP cfg),
      fa_WriteTimeout = http_WriteTimeout (cfg_HTTP cfg),
      fa_IdleTimeout = http_IdleTimeout (cfg_HTTP cfg),
      fa_DisableStartupMessage = IsProduction (cfg_App cfg),
      fa_includeDetail = \<not> IsProduction (cfg_App cfg)\<rparr>"

text \<open>A missing or refused key of the model leaves the disabled client.\<close>

definition choose_llm ::
  "(string \<Rightarrow> string \<Rightarrow> string \<Rightarrow> goerror option) \<Rightarrow> llm_config \<Rightarrow> llm_client" where
  "choose_llm openai_New cfg =
     (case llm_New openai_New cfg of
        Inl err \<Rightarrow> Disabled (llm_Model cfg)
      | Inr c \<Rightarrow> c)"

text \<open>What \<^verbatim>\<open>run\<close> builds from the configuration and the open broker.\<close>

record wiring =
  wi_service :: task_service
  wi_worker :: task_summarizer
  wi_reconciler :: reconciler
  wi_app :: fiber_app
  wi_routes :: "(route_key \<times> middleware) list"

definition wire ::
  "lib \<Rightarrow> fiber \<Rightarrow> (string \<Rightarrow> string \<Rightarrow> string \<Rightarrow> goerror option) \<Rightarrow> config \<Rightarrow> broker \<Rightarrow> wiring" where
  "wire L F openai_New cfg brk =
     (let taskSvc = NewTaskService NewTaskRepository (Broker_Publish brk);
          dedupe = NewDedupe (rc_DedupeTTL (cfg_Reconciler cfg));
          llmClient = choose_llm openai_New (cfg_LLM cfg)
      in \<lparr>wi_service = taskSvc,
          wi_worker = NewTaskSummarizer taskSvc llmClient (Some dedupe),
          wi_reconciler =
            Reconciler_New (service_tasks L taskSvc) (reconciler_options_of (cfg_Reconciler cfg)),
          wi_app = newFiberApp cfg,
          wi_routes = NewRouter L F
            \<lparr>rd_TaskService = taskSvc,
             rd_RateLimit =
               Some (RateLimiter redisRateIncrementer rateLimitRequests rateLimitWindow)\<rparr>\<rparr>)"

section \<open>Running\<close>

datatype stop_reason = SignalReceived | ServerFailed goerror | BrokerLost

text \<open>A deferred call.\<close>

definition deferring :: "unit prog \<Rightarrow> 'a prog \<Rightarrow> 'a prog" where
  "deferring cleanup p = pbind p (\<lambda>a. pbind cleanup (\<lambda>_. Return a))"

definition boot_do :: "boot_cmd \<Rightarrow> unit prog" where
  "boot_do c = Boot c (\<lambda>_. Return ())"

text \<open>From the wait on; the consumer to be stopped is the one registered in \<open>brk\<close>.\<close>

definition run_until ::
  "config \<Rightarrow> stop_reason \<Rightarrow> broker \<Rightarrow> (goerror option \<times> broker) prog" where
  "run_until cfg stop brk =
     (case stop of
        ServerFailed err \<Rightarrow> Return (Some (errorf ''http listen'' err), brk)
      | BrokerLost \<Rightarrow> Return (Some (Plain ''broker connection lost''), brk)
      | SignalReceived \<Rightarrow>
          Boot (ShutdownHTTP (app_ShutdownTimeout (cfg_App cfg))) (\<lambda>_.
            Return (None, brk\<lparr>b_consumers := map Consumer_Stop (b_consumers brk)\<rparr>)))"

definition run_wired ::
  "lib \<Rightarrow> fiber \<Rightarrow> (string \<Rightarrow> string \<Rightarrow> string \<Rightarrow> goerror option) \<Rightarrow> config \<Rightarrow> stop_reason \<Rightarrow> broker \<Rightarrow>
     (goerror option \<times> broker) prog" where
  "run_wired L F openai_New cfg stop brk =
     (let wi = wire L F openai_New cfg brk
      in case TaskSummarizer_Register L (wi_worker wi) brk of
           Inl err \<Rightarrow> Return (Some (errorf ''register summarizer worker'' err), brk)
         | Inr (consumer, brk, consume) \<Rightarrow>
             pbind (if rc_Enabled (cfg_Reconciler cfg) then boot_do GoReconciler else Return ()) (\<lambda>_.
               pbind (boot_do (GoListen ('':'' @ itoa (http_Port (cfg_HTTP cfg))))) (\<lambda>_.
                 run_until cfg stop brk)))"

definition run_broker ::
  "lib \<Rightarrow> fiber \<Rightarrow> (string \<Rightarrow> string \<Rightarrow> string \<Rightarrow> goerror option) \<Rightarrow> config \<Rightarrow> stop_reason \<Rightarrow>
     goerror option prog" where
  "run_broker L F openai_New cfg stop =
     pbind (Broker_New (broker_options_of (cfg_Broker cfg))) (\<lambda>r. case r of
       Inl err \<Rightarrow> Return (Some err)
     | Inr brk \<Rightarrow>
         pbind (run_wired L F openai_New cfg stop brk) (\<lambda>(res, brk).
           pbind (Broker_Close brk) (\<lambda>_. Return res)))"

definition run_redis ::
  "lib \<Rightarrow> fiber \<Rightarrow> (string \<Rightarrow> string \<Rightarrow> string \<Rightarrow> goerror option) \<Rightarrow> config \<Rightarrow> stop_reason \<Rightarrow>
     goerror option prog" where
  "run_redis L F openai_New cfg stop =
     pbind (NewRedis (cfg_Redis cfg)) (\<lambda>r. case r of
       Some err \<Rightarrow> Return (Some err)
     | None \<Rightarrow> deferring (boot_do CloseRedis) (run_broker L F openai_New cfg stop))"

definition run_migrated ::
  "lib \<Rightarrow> fiber \<Rightarrow> (string \<Rightarrow> string \<Rightarrow> string \<Rightarrow> goerror option) \<Rightarrow> config \<Rightarrow> bool \<Rightarrow> stop_reason \<Rightarrow>
     goerror option prog" where
  "run_migrated L F openai_New cfg migrateOnly stop =
     (if migrateOnly then repository_AutoMigrate
      else
        pbind (if db_AutoMigrate (cfg_DB cfg) then repository_AutoMigrate else Return None)
          (\<lambda>r. case r of
             Some err \<Rightarrow> Return (Some err)
           | None \<Rightarrow> run_redis L F openai_New cfg stop))"

definition main_run ::
  "platform \<Rightarrow> variables \<Rightarrow> lib \<Rightarrow> fiber \<Rightarrow> (string \<Rightarrow> string \<Rightarrow> string \<Rightarrow> goerror option) \<Rightarrow>
     string \<Rightarrow> bool \<Rightarrow> stop_reason \<Rightarrow> goerror option prog" where
  "main_run P env L F openai_New envFile migrateOnly stop =
     (case Load P env envFile of
        Inl err \<Rightarrow> Return (Some (errorf ''load config'' err))
      | Inr cfg \<Rightarrow>
          pbind (NewPostgres (cfg_DB cfg) (IsProduction (cfg_App cfg))) (\<lambda>r. case r of
            Some err \<Rightarrow> Return (Some err)
          | None \<Rightarrow>
              Boot GormDB (\<lambda>r. case r of
                Some err \<Rightarrow> Return (Some (errorf ''unwrap sql.DB'' err))
              | None \<Rightarrow>
                  deferring (boot_do CloseDB) (run_migrated L F openai_New cfg migrateOnly stop))))"

text \<open>\<^verbatim>\<open>main\<close>: the two flags, if given, and the exit status of the process.\<close>

definition flag_value :: "'a \<Rightarrow> 'a option \<Rightarrow> 'a" where
  "flag_value d x = (case x of None \<Rightarrow> d | Some v \<Rightarrow> v)"

definition main_exit :: "goerror option \<Rightarrow> int" where
  "main_exit res = (case res of None \<Rightarrow> 0 | Some err \<Rightarrow> 1)"

definition main_prog ::
  "platform \<Rightarrow> variables \<Rightarrow> lib \<Rightarrow> fiber \<Rightarrow> (string \<Rightarrow> string \<Rightarrow> string \<Rightarrow> goerror option) \<Rightarrow>
     string option \<Rightarrow> bool option \<Rightarrow> stop_reason \<Rightarrow> int prog" where
  "main_prog P env L F openai_New envFlag migrateFlag stop =
     pbind (main_run P env L F openai_New (flag_value ''.env'' envFlag) (flag_value False migrateFlag) stop)
       (\<lambda>res. Return (main_exit res))"

section \<open>Observing a start\<close>

text \<open>
  What a run opened, what it released and what it could not use because a call on it failed
  before the caller got hold of it, in order. \<^verbatim>\<open>gorm.Open\<close> makes the database pool,
  \<^verbatim>\<open>redis.NewClient\<close> the Redis client, dialing the connection of the broker.
\<close>

datatype resource = BrokerConn | RedisPool | DbPool

fun opened_by :: "event \<Rightarrow> resource list" where
  "opened_by (EBoot (GormOpen dsn lv) None) = [DbPool]"
| "opened_by (EBoot (NewRedisClient addr pw n) _) = [RedisPool]"
| "opened_by (EBoot (AmqpDial url) None) = [BrokerConn]"
| "opened_by _ = []"

fun released_by :: "event \<Rightarrow> resource list" where
  "released_by (EAmqp CloseConn _) = [BrokerConn]"
| "released_by (EBoot CloseRedis _) = [RedisPool]"
| "released_by (EBoot CloseDB _) = [DbPool]"
| "released_by _ = []"

fun refused_by :: "event \<Rightarrow> resource list" where
  "refused_by (EBoot GormDB (Some e)) = [DbPool]"
| "refused_by (EBoot PingDB (Some e)) = [DbPool]"
| "refused_by (ERedis PingRedis (Some e)) = [RedisPool]"
| "refused_by _ = []"

definition opened :: "event list \<Rightarrow> resource list" where
  "opened evs = concat (map opened_by evs)"

definition releases :: "event list \<Rightarrow> resource list" where
  "releases evs = concat (map released_by evs)"

definition refused :: "event list \<Rightarrow> resource list" where
  "refused evs = concat (map refused_by evs)"

definition dialed :: "event list \<Rightarrow> bool" where
  "dialed evs \<longleftrightarrow>
     list_ex (\<lambda>ev. case ev of EBoot (AmqpDial url) r \<Rightarrow> r = None | _ \<Rightarrow> False) evs"

lemma observed_simps [simp]:
  "opened [] = []" "opened (ev # evs) = opened_by ev @ opened evs" "opened (xs @ ys) = opened xs @ opened ys"
  "releases [] = []" "releases (ev # evs) = released_by ev @ releases evs"
  "releases (xs @ ys) = releases xs @ releases ys"
  "refused [] = []" "refused (ev # evs) = refused_by ev @ refused evs"
  "refused (xs @ ys) = refused xs @ refused ys"
  by (simp_all add: opened_def releases_def refused_def)

lemma dialed_simps [simp]:
  "dialed [] = False"
  "dialed (ev # evs) = ((case ev of EBoot (AmqpDial url) r \<Rightarrow> r = None | _ \<Rightarrow> False) \<or> dialed evs)"
  "dialed (xs @ ys) = (dialed xs \<or> dialed ys)"
  by (simp_all add: dialed_def)

lemma redis_up_simps [simp]:
  "redis_up [] = False"
  "redis_up (ev # evs) = ((case ev of ERedis PingRedis r \<Rightarrow> r = None | _ \<Rightarrow> False) \<or> redis_up evs)"
  "redis_up (xs @ ys) = (redis_up xs \<or> redis_up ys)"
  by (simp_all add: redis_up_def)

lemma dialed_opened: "dialed evs \<longleftrightarrow> BrokerConn \<in> set (opened evs)"
proof (induction evs)
  case (Cons ev evs)
  have "(case ev of EBoot (AmqpDial url) r \<Rightarrow> r = None | _ \<Rightarrow> False) \<longleftrightarrow> BrokerConn \<in> set (opened_by ev)"
    by (cases ev rule: opened_by.cases) (auto split: boot_cmd.split)
  with Cons.IH show ?case by simp
qed simp

text \<open>Calls that neither open, release nor refuse.\<close>

fun plain_call :: "event \<Rightarrow> bool" where
  "plain_call (EAmqp c _) \<longleftrightarrow> c \<noteq> CloseConn"
| "plain_call (EBoot c _) \<longleftrightarrow>
     (case c of AutoMigrateTask \<Rightarrow> True | SetPool a b d \<Rightarrow> True | GoReconciler \<Rightarrow> True | GoListen a \<Rightarrow> True
      | ShutdownHTTP d \<Rightarrow> True | _ \<Rightarrow> False)"
| "plain_call (ERedis c _) \<longleftrightarrow> c \<noteq> PingRedis"
| "plain_call _ \<longleftrightarrow> True"

lemma plain_call_obs:
  assumes "plain_call ev"
  shows "opened_by ev = []" "released_by ev = []" "refused_by ev = []"
proof -
  show "opened_by ev = []" using assms by (cases ev rule: opened_by.cases) simp_all
  show "released_by ev = []" using assms by (cases ev rule: released_by.cases) simp_all
  show "refused_by ev = []" using assms by (cases ev rule: refused_by.cases) simp_all
qed

definition obs :: "event list \<Rightarrow> resource list \<times> resource list \<times> resource list" where
  "obs evs = (opened evs, releases evs, refused evs)"

lemma plain_calls: "list_all plain_call evs \<Longrightarrow> obs evs = ([], [], [])"
  unfolding obs_def by (induction evs) (auto dest: plain_call_obs)

lemma plain_obs: "only plain_call p \<Longrightarrow> obs (log E p w) = ([], [], [])"
  by (rule plain_calls) (auto simp: list_all_iff dest: only_log)

lemma dial_obs:
  assumes "run E (dial url) w = (r, w')"
  shows "obs (log E (dial url) w) = (if r = None then [BrokerConn] else [], [], [])"
proof -
  have "obs (log E (dial_loop n url b) w) =
      (if fst (run E (dial_loop n url b) w) = None then [BrokerConn] else [], [], [])" for n b w
  proof (induction n arbitrary: b w)
    case 0
    show ?case by (simp add: dial_loop.simps [of 0] obs_def split: prod.split option.split)
  next
    case (Suc n)
    from Suc.IH show ?case
      by (simp add: dial_loop.simps [of "Suc n"] obs_def split: prod.split option.split)
  qed
  with assms show ?thesis by (simp add: dial_def)
qed

lemma topology_plain: "only plain_call (declareTopologyOnAll b)"
  by (auto simp: declareTopologyOnAll_def declareTopology_def amqp_do_def split: option.split)

text \<open>Opening a broker keeps the connection or releases it.\<close>

lemma Broker_New_obs:
  assumes "run E (Broker_New opts) w = (r, w')"
  shows "\<exists>d. obs (log E (Broker_New opts) w) =
               (if d then [BrokerConn] else [], if d \<and> isl r then [BrokerConn] else [], []) \<and>
             (case r of Inl e \<Rightarrow> True | Inr b \<Rightarrow> d \<and> \<not> b_closed b)"
proof -
  obtain x u where x: "run E (dial (opt_URL opts)) w = (x, u)" by fastforce
  note dl = dial_obs [OF x]
  show ?thesis
  proof (cases x)
    case (Some e)
    with x assms have "r = Inl e" "log E (Broker_New opts) w = log E (dial (opt_URL opts)) w"
      by (simp_all add: Broker_New_def)
    with dl Some show ?thesis by (intro exI [of _ False]) simp
  next
    case None
    let ?b = "\<lparr>b_exchange = opt_Exchange opts, b_prefetch = opt_Prefetch opts,
                b_pubCh = False, b_consumers = [], b_closed = False\<rparr>"
    obtain t v where t: "run E (declareTopologyOnAll ?b) u = (t, v)" by fastforce
    obtain o1 v1 where o: "on_amqp E OpenChannel v = (o1, v1)" by fastforce
    obtain c1 v2 where c: "on_amqp E ConfirmMode v1 = (c1, v2)" by fastforce
    have pt: "obs (log E (declareTopologyOnAll ?b) u) = ([], [], [])"
      by (rule plain_obs [OF topology_plain])
    show ?thesis
      using assms x dl None t o c pt
      by (intro exI [of _ True], cases t; cases o1; cases c1)
         (auto simp: Broker_New_def Let_def obs_def split: prod.splits)
  qed
qed

lemma Broker_Close_obs:
  "\<not> b_closed b \<Longrightarrow> obs (log E (Broker_Close b) w) = ([], [BrokerConn], [])"
  by (auto simp: Broker_Close_def Let_def obs_def split: prod.split)

lemma run_wired_plain: "only plain_call (run_wired L F mk cfg stop b)"
  by (simp add: run_wired_def Let_def Register_consumer boot_do_def run_until_def split: stop_reason.split)

lemma run_wired_open:
  assumes "run E (run_wired L F mk cfg stop b) w = ((res, b'), w')"
  shows "b_closed b' = b_closed b"
  using assms
  by (auto simp: run_wired_def Let_def Register_consumer boot_do_def run_until_def
      split: stop_reason.splits prod.splits if_splits)

lemma run_broker_obs:
  "\<exists>d. obs (log E (run_broker L F mk cfg stop) w) =
     (if d then [BrokerConn] else [], if d then [BrokerConn] else [], [])"
proof -
  obtain r u where r: "run E (Broker_New (broker_options_of (cfg_Broker cfg))) w = (r, u)" by fastforce
  obtain d where d: "obs (log E (Broker_New (broker_options_of (cfg_Broker cfg))) w) =
      (if d then [BrokerConn] else [], if d \<and> isl r then [BrokerConn] else [], [])"
    "case r of Inl e \<Rightarrow> True | Inr b \<Rightarrow> d \<and> \<not> b_closed b"
    using Broker_New_obs [OF r] by blast
  show ?thesis
  proof (cases r)
    case (Inl e)
    with r d show ?thesis by (auto simp: run_broker_def)
  next
    case (Inr b)
    obtain res b' v where v: "run E (run_wired L F mk cfg stop b) u = ((res, b'), v)" by (metis surj_pair)
    have "\<not> b_closed b'" using run_wired_open [OF v] d(2) Inr by simp
    from Broker_Close_obs [OF this, of E v] plain_obs [OF run_wired_plain, of E L F mk cfg stop b u]
    show ?thesis
      using r Inr d v by (auto simp: run_broker_def obs_def split: prod.splits)
  qed
qed

text \<open>What was opened and not refused is released, in the reverse order.\<close>

definition tidy :: "event list \<Rightarrow> bool" where
  "tidy evs \<longleftrightarrow> distinct (opened evs) \<and>
     releases evs = rev (filter (\<lambda>r. r \<notin> set (refused evs)) (opened evs))"

definition no_pool :: "event list \<Rightarrow> bool" where
  "no_pool evs \<longleftrightarrow> DbPool \<notin> set (opened evs) \<and> DbPool \<notin> set (refused evs)"

lemma run_redis_obs:
  "tidy (log E (run_redis L F mk cfg stop) w) \<and> no_pool (log E (run_redis L F mk cfg stop) w)"
proof -
  let ?n = "NewRedis (cfg_Redis cfg)"
  obtain r u where r: "run E ?n w = (r, u)" by fastforce
  have n: "obs (log E ?n w) = ([RedisPool], [], if r = None then [] else [RedisPool])"
    using r by (auto simp: NewRedis_def obs_def split: prod.splits option.splits)
  show ?thesis
  proof (cases r)
    case (Some e)
    with r n show ?thesis by (auto simp: run_redis_def tidy_def no_pool_def obs_def)
  next
    case None
    obtain d where "obs (log E (run_broker L F mk cfg stop) u) =
        (if d then [BrokerConn] else [], if d then [BrokerConn] else [], [])"
      using run_broker_obs [of E L F mk cfg stop u] by blast
    with r n None show ?thesis
      by (auto simp: run_redis_def deferring_def boot_do_def tidy_def no_pool_def obs_def split: prod.splits)
  qed
qed

lemma migrate_obs: "obs (log E repository_AutoMigrate w) = ([], [], [])"
  by (rule plain_obs) (simp add: repository_AutoMigrate_def)

lemma quiet_tidy:
  "obs xs = ([], [], []) \<Longrightarrow> tidy (xs @ ys) = tidy ys \<and> no_pool (xs @ ys) = no_pool ys"
  by (simp add: obs_def tidy_def no_pool_def)

lemma run_migrated_obs:
  "tidy (log E (run_migrated L F mk cfg migrateOnly stop) w) \<and>
   no_pool (log E (run_migrated L F mk cfg migrateOnly stop) w)"
proof (cases migrateOnly)
  case True
  with migrate_obs [of E w] show ?thesis by (simp add: run_migrated_def tidy_def no_pool_def obs_def)
next
  case False
  let ?m = "if db_AutoMigrate (cfg_DB cfg) then repository_AutoMigrate else Return None"
  obtain r u where r: "run E ?m w = (r, u)" by fastforce
  have m: "obs (log E ?m w) = ([], [], [])"
    using migrate_obs [of E w] by (simp add: obs_def)
  have "log E (run_migrated L F mk cfg migrateOnly stop) w =
      log E ?m w @ (case r of Some err \<Rightarrow> [] | None \<Rightarrow> log E (run_redis L F mk cfg stop) u)"
    using False r by (cases r) (simp_all add: run_migrated_def)
  moreover have "tidy []" "no_pool []" by (simp_all add: tidy_def no_pool_def)
  ultimately show ?thesis
    using quiet_tidy [OF m, of "[]"] quiet_tidy [OF m, of "log E (run_redis L F mk cfg stop) u"]
      run_redis_obs [of E L F mk cfg stop u] by (cases r) simp_all
qed

text \<open>The pool is refused exactly if the caller did not get it.\<close>

lemma NewPostgres_obs:
  assumes "run E (NewPostgres cfg isProd) w = (r, w')"
  shows "\<exists>a. obs (log E (NewPostgres cfg isProd) w) =
              (if a then [DbPool] else [], [], if a \<and> r \<noteq> None then [DbPool] else []) \<and>
             (r = None \<longrightarrow> a)"
proof -
  let ?o = "GormOpen (DSN cfg) (if \<not> isProd then LogInfo else LogWarn)"
  obtain a u where a: "on_boot E ?o w = (a, u)" by fastforce
  obtain b v where b: "on_boot E GormDB u = (b, v)" by fastforce
  show ?thesis
    using assms a b
    by (intro exI [of _ "a = None"], cases a; cases b)
       (auto simp: NewPostgres_def Let_def obs_def split: prod.splits option.splits)
qed

section \<open>The order of a start\<close>

text \<open>What must have succeeded before a request can arrive.\<close>

definition ready :: "bool \<Rightarrow> event list \<Rightarrow> bool" where
  "ready migrate h \<longleftrightarrow>
     succeeded PingDB h \<and> redis_up h \<and> dialed h \<and>
     (if migrate then succeeded AutoMigrateTask h else True)"

fun serving :: "event \<Rightarrow> bool" where
  "serving (EBoot (GoListen addr) _) \<longleftrightarrow> True"
| "serving (EBoot GoReconciler _) \<longleftrightarrow> True"
| "serving _ \<longleftrightarrow> False"

definition serve_ready :: "bool \<Rightarrow> event list \<Rightarrow> event \<Rightarrow> bool" where
  "serve_ready migrate h ev \<longleftrightarrow> (if serving ev then ready migrate h else True)"

lemma succeeded_append [simp]: "succeeded b (xs @ ys) = (succeeded b xs \<or> succeeded b ys)"
  by (simp add: succeeded_def)

lemma ready_after: "ready m h \<Longrightarrow> each_after (serve_ready m) h evs"
  by (induction evs arbitrary: h) (auto simp: serve_ready_def ready_def)

lemma quiet_after: "list_all (\<lambda>ev. \<not> serving ev) evs \<Longrightarrow> each_after (serve_ready m) h evs"
  by (induction evs arbitrary: h) (auto simp: serve_ready_def)

lemma quiet_prog: "only (\<lambda>ev. \<not> serving ev) p \<Longrightarrow> each_after (serve_ready m) h (log E p w)"
  by (rule quiet_after) (auto simp: list_all_iff dest: only_log)

lemma dial_not_serving: "only (\<lambda>ev. \<not> serving ev) (dial url)"
proof -
  have "only (\<lambda>ev. \<not> serving ev) (dial_loop n url b)" for n b
    by (induction n arbitrary: b) (subst dial_loop.simps, simp split: option.split)+
  then show ?thesis by (simp add: dial_def)
qed

lemma start_not_serving:
  "only (\<lambda>ev. \<not> serving ev) (NewPostgres d isProd)" "only (\<lambda>ev. \<not> serving ev) (NewRedis rc)"
  "only (\<lambda>ev. \<not> serving ev) repository_AutoMigrate" "only (\<lambda>ev. \<not> serving ev) (Broker_New opts)"
  "only (\<lambda>ev. \<not> serving ev) (Broker_Close b)"
  by (auto simp: NewPostgres_def NewRedis_def repository_AutoMigrate_def Broker_New_def Broker_Close_def
      Let_def declareTopologyOnAll_def declareTopology_def amqp_do_def
      intro!: only_pbind [OF dial_not_serving] only_pbind split: option.split)

lemma run_broker_order:
  assumes "succeeded PingDB h" "redis_up h" "if m then succeeded AutoMigrateTask h else True"
  shows "each_after (serve_ready m) h (log E (run_broker L F mk cfg stop) w)"
proof -
  let ?b = "Broker_New (broker_options_of (cfg_Broker cfg))"
  obtain r u where r: "run E ?b w = (r, u)" by fastforce
  have q: "each_after (serve_ready m) h (log E ?b w)" by (rule quiet_prog [OF start_not_serving(4)])
  show ?thesis
  proof (cases r)
    case (Inl e)
    with r q show ?thesis by (simp add: run_broker_def)
  next
    case (Inr b)
    with Broker_New_obs [OF r] have "dialed (log E ?b w)" by (auto simp: obs_def dialed_opened)
    then have "ready m (h @ log E ?b w)" using assms by (simp add: ready_def)
    with r Inr q show ?thesis
      by (simp add: run_broker_def each_after_append ready_after)
  qed
qed

lemma run_redis_order:
  assumes "succeeded PingDB h" "if m then succeeded AutoMigrateTask h else True"
  shows "each_after (serve_ready m) h (log E (run_redis L F mk cfg stop) w)"
proof -
  let ?n = "NewRedis (cfg_Redis cfg)"
  obtain r u where r: "run E ?n w = (r, u)" by fastforce
  have q: "each_after (serve_ready m) h (log E ?n w)" by (rule quiet_prog [OF start_not_serving(2)])
  show ?thesis
  proof (cases r)
    case (Some e)
    with r q show ?thesis by (simp add: run_redis_def)
  next
    case None
    with r have "redis_up (log E ?n w)" by (auto simp: NewRedis_def split: prod.splits option.splits)
    with run_broker_order [of "h @ log E ?n w" m E L F mk cfg stop u] assms
    have b: "each_after (serve_ready m) (h @ log E ?n w) (log E (run_broker L F mk cfg stop) u)" by simp
    have c: "each_after (serve_ready m) g (log E (boot_do CloseRedis) v)" for g v
      by (rule quiet_prog) (simp add: boot_do_def)
    show ?thesis
      using r None q b c by (simp add: run_redis_def deferring_def each_after_append split: prod.split)
  qed
qed

lemma run_migrated_order:
  assumes "succeeded PingDB h"
  shows "each_after (serve_ready (db_AutoMigrate (cfg_DB cfg))) h
           (log E (run_migrated L F mk cfg migrateOnly stop) w)"
proof (cases migrateOnly)
  case True
  then show ?thesis by (simp add: run_migrated_def quiet_prog [OF start_not_serving(3)])
next
  case False
  let ?a = "db_AutoMigrate (cfg_DB cfg)"
  let ?m = "if ?a then repository_AutoMigrate else Return None"
  obtain r u where r: "run E ?m w = (r, u)" by fastforce
  have q: "each_after (serve_ready ?a) h (log E ?m w)"
    by (rule quiet_prog) (simp add: start_not_serving)
  show ?thesis
  proof (cases r)
    case (Some e)
    with False r q show ?thesis by (simp add: run_migrated_def)
  next
    case None
    with r have "if ?a then succeeded AutoMigrateTask (log E ?m w) else True"
      by (auto simp: repository_AutoMigrate_def succeeded_def split: prod.splits option.splits)
    with run_redis_order [of "h @ log E ?m w" ?a E L F mk cfg stop u] assms
    have "each_after (serve_ready ?a) (h @ log E ?m w) (log E (run_redis L F mk cfg stop) u)"
      by (auto split: if_splits)
    with False r None q show ?thesis by (simp add: run_migrated_def each_after_append)
  qed
qed

lemma NewPostgres_pinged:
  "run E (NewPostgres d isProd) w = (None, w') \<Longrightarrow> succeeded PingDB (log E (NewPostgres d isProd) w)"
  by (cases isProd)
     (auto simp: NewPostgres_def Let_def succeeded_def split: prod.splits option.splits)

text \<open>The objects of the properties of the other theories are those that \<^verbatim>\<open>run\<close> builds.\<close>

lemma wire_production:
  "wi_service (wire L F mk cfg b) = production_service b"
  "wi_routes (wire L F mk cfg b) =
     NewRouter L F (limited_deps (production_service b) redisRateIncrementer 100 (60 * second))"
  "wi_reconciler (wire L F mk cfg b) =
     production_reconciler L b (reconciler_options_of (cfg_Reconciler cfg))"
  "wi_worker (wire L F mk cfg b) = NewTaskSummarizer (production_service b)
     (choose_llm mk (cfg_LLM cfg)) (Some (NewDedupe (rc_DedupeTTL (cfg_Reconciler cfg))))"
  by (simp_all add: wire_def Let_def limited_deps_def rateLimitRequests_def rateLimitWindow_def)

lemma choose_llm_contract: "llm_contract (choose_llm mk cfg)"
  by (auto simp: choose_llm_def disabled.llm_contract_axioms dest: llm_New_contract split: sum.split)

section \<open>Properties\<close>

text \<open>
  C20: What was opened and what is released. Whatever fails or ends the process, with any
  configuration: each of the database pool, the Redis client and the broker's connection is
  opened at most once, and those that were opened are closed once each, in the reverse order,
  except the ones that were refused: the pool if \<^verbatim>\<open>db.DB()\<close> or its ping failed, the Redis
  client if its ping failed. These are left open, and nothing else is.
\<close>

theorem main_releases:
  "distinct (opened (log E (main_run P env L F mk envFile migrateOnly stop) w)) \<and>
   releases (log E (main_run P env L F mk envFile migrateOnly stop) w) =
     rev (filter (\<lambda>r. r \<notin> set (refused (log E (main_run P env L F mk envFile migrateOnly stop) w)))
       (opened (log E (main_run P env L F mk envFile migrateOnly stop) w)))"
proof (cases "Load P env envFile")
  case (Inl e)
  then show ?thesis by (simp add: main_run_def)
next
  case (Inr cfg)
  let ?n = "NewPostgres (cfg_DB cfg) (IsProduction (cfg_App cfg))"
  let ?m = "run_migrated L F mk cfg migrateOnly stop"
  obtain r u where r: "run E ?n w = (r, u)" by fastforce
  obtain a where n: "obs (log E ?n w) = (if a then [DbPool] else [], [], if a \<and> r \<noteq> None then [DbPool] else [])"
    "r = None \<longrightarrow> a" using NewPostgres_obs [OF r] by blast
  show ?thesis
  proof (cases r)
    case (Some e)
    with Inr r n show ?thesis by (auto simp: main_run_def obs_def)
  next
    case None
    obtain s v where s: "on_boot E GormDB u = (s, v)" by fastforce
    obtain x z where x: "run E ?m v = (x, z)" by fastforce
    from run_migrated_obs [of E L F mk cfg migrateOnly stop v] have m: "distinct (opened (log E ?m v))"
      "releases (log E ?m v) = rev (filter (\<lambda>r. r \<notin> set (refused (log E ?m v))) (opened (log E ?m v)))"
      "DbPool \<notin> set (opened (log E ?m v))" "DbPool \<notin> set (refused (log E ?m v))"
      by (simp_all add: tidy_def no_pool_def)
    show ?thesis
    proof (cases s)
      case (Some e)
      with Inr r n None s show ?thesis by (simp add: main_run_def obs_def)
    next
      case none: None
      with Inr r n None s x have "opened (log E (main_run P env L F mk envFile migrateOnly stop) w) =
          DbPool # opened (log E ?m v)"
        "releases (log E (main_run P env L F mk envFile migrateOnly stop) w) = releases (log E ?m v) @ [DbPool]"
        "refused (log E (main_run P env L F mk envFile migrateOnly stop) w) = refused (log E ?m v)"
        by (simp_all add: main_run_def deferring_def boot_do_def obs_def split: prod.split)
      with m show ?thesis by simp
    qed
  qed
qed

text \<open>
  C35: The order of a start. Before the reconciler or the HTTP server is started, the database
  and Redis have answered a ping, the broker has been dialed, and the migration, if it is
  configured, has been applied. With a configuration that does not load nothing is called.
\<close>

theorem main_start_order:
  "case Load P env envFile of
     Inl e \<Rightarrow> log E (main_run P env L F mk envFile migrateOnly stop) w = []
   | Inr cfg \<Rightarrow>
       each_after (serve_ready (db_AutoMigrate (cfg_DB cfg))) []
         (log E (main_run P env L F mk envFile migrateOnly stop) w)"
proof (cases "Load P env envFile")
  case (Inl e)
  then show ?thesis by (simp add: main_run_def)
next
  case (Inr cfg)
  let ?n = "NewPostgres (cfg_DB cfg) (IsProduction (cfg_App cfg))"
  let ?m = "run_migrated L F mk cfg migrateOnly stop"
  let ?P = "serve_ready (db_AutoMigrate (cfg_DB cfg))"
  obtain r u where r: "run E ?n w = (r, u)" by fastforce
  have q: "each_after ?P [] (log E ?n w)" by (rule quiet_prog [OF start_not_serving(1)])
  show ?thesis
  proof (cases r)
    case (Some e)
    with Inr r q show ?thesis by (simp add: main_run_def)
  next
    case None
    obtain s v where s: "on_boot E GormDB u = (s, v)" by fastforce
    have m: "each_after ?P (log E ?n w @ [EBoot GormDB s]) (log E ?m v)"
      by (rule run_migrated_order) (use NewPostgres_pinged [of E] r None in simp)
    have c: "each_after ?P h (log E (boot_do CloseDB) x)" for h x
      by (rule quiet_prog) (simp add: boot_do_def)
    show ?thesis
      using Inr r None s q m c
      by (cases s)
         (simp_all add: main_run_def deferring_def each_after_append serve_ready_def split: prod.split)
  qed
qed

text \<open>
  A process reports success only for a migration that was asked for, or after a signal: when
  the server or the broker ends it, the exit status is not zero.
\<close>

lemma run_redis_fails:
  assumes "stop \<noteq> SignalReceived" "run E (run_redis L F mk cfg stop) w = (r, w')"
  shows "r \<noteq> None"
proof -
  have wired: "fst (fst (run E (run_wired L F mk cfg stop b) x)) \<noteq> None" for b x
    using assms(1)
    by (auto simp: run_wired_def Let_def Register_consumer boot_do_def run_until_def
        split: stop_reason.splits prod.splits)
  have "s \<noteq> None" if "run E (run_broker L F mk cfg stop) x = (s, x')" for s x x'
  proof -
    obtain y u where y: "run E (Broker_New (broker_options_of (cfg_Broker cfg))) x = (y, u)" by fastforce
    show ?thesis
    proof (cases y)
      case (Inr b)
      obtain res b' v where "run E (run_wired L F mk cfg stop b) u = ((res, b'), v)" by (metis surj_pair)
      with wired [of b u] that y Inr show ?thesis
        by (auto simp: run_broker_def split: prod.splits)
    qed (use that y in \<open>auto simp: run_broker_def\<close>)
  qed
  with assms(2) show ?thesis
    by (auto simp: run_redis_def deferring_def boot_do_def split: prod.splits option.splits)
qed

lemma exit_zero:
  assumes "run E (main_prog P env L F mk envFlag migrateFlag stop) w = (0, w')"
  shows "flag_value False migrateFlag \<or> stop = SignalReceived"
proof (rule ccontr)
  assume n: "\<not> ?thesis"
  then have s: "stop \<noteq> SignalReceived" and f: "\<not> flag_value False migrateFlag" by simp_all
  have m: "x \<noteq> None" if "run E (run_migrated L F mk cfg False stop) u = (x, v)" for cfg x u v
    using that run_redis_fails [OF s]
    by (auto simp: run_migrated_def split: prod.splits option.splits if_splits)
  have "x \<noteq> None" if "run E (main_run P env L F mk envFile False stop) w = (x, v)" for envFile x v
    using that m
    by (auto simp: main_run_def deferring_def boot_do_def split: prod.splits option.splits sum.splits)
  with assms f show False
    by (auto simp: main_prog_def main_exit_def split: prod.splits option.splits)
qed

abbreviation sample_load :: "variables \<Rightarrow> goerror + config" where
  "sample_load env \<equiv> Load sample_platform env ''''"

lemma sample_load:
  "Config_validate (config_of_env sample_platform env) = None \<Longrightarrow>
   sample_load env = Inr (config_of_env sample_platform env)"
  by (simp add: Load_def seed_env_def)

text \<open>
  C39: Production hides internal errors. In the application the program builds from its
  configuration, if the environment is production, the whole response to an error that is
  neither one of the framework nor one of the two sentinels is the same for all such errors,
  with status 500: it does not depend on their text. In any other environment the details of
  the envelope are the text of the error.
\<close>

theorem production_hides_details:
  assumes "internal_error e" and "internal_error e'"
  shows "if app_Env (cfg_App cfg) = ''production''
         then ErrorHandler (fa_includeDetail (wi_app (wire L F mk cfg b))) c e =
                ErrorHandler (fa_includeDetail (wi_app (wire L F mk cfg b))) c e' \<and>
              cx_status (snd (ErrorHandler (fa_includeDetail (wi_app (wire L F mk cfg b))) c e)) = 500
         else eb_Details (snd (error_reply (fa_includeDetail (wi_app (wire L F mk cfg b))) tid e)) =
                error_text e"
  using assms
  by (simp add: internal_error_def ErrorHandler_def error_reply_def Let_def status_JSON_def
      marshal_error_body_def wire_def newFiberApp_def IsProduction_def)

theorem production_hides_details_witness:
  "\<exists>cfg. sample_load [''APP_ENV'' \<mapsto> ''production'', ''LLM_API_KEY'' \<mapsto> ''k''] = Inr cfg \<and>
     ErrorHandler (fa_includeDetail (wi_app (wire mem_lib sample_fiber (\<lambda>k m u. None) cfg sample_broker)))
         (fresh_ctx (sample_request ''GET'' ''/'')) (errorf ''get task'' (Plain ''password'')) =
       ErrorHandler (fa_includeDetail (wi_app (wire mem_lib sample_fiber (\<lambda>k m u. None) cfg sample_broker)))
         (fresh_ctx (sample_request ''GET'' ''/'')) (Plain ''other'')"
proof -
  let ?cfg = "config_of_env sample_platform [''APP_ENV'' \<mapsto> ''production'', ''LLM_API_KEY'' \<mapsto> ''k'']"
  have "Config_validate ?cfg = None" by code_simp
  note l = sample_load [OF this]
  have p: "app_Env (cfg_App ?cfg) = ''production''" by code_simp
  have i: "internal_error (errorf ''get task'' (Plain ''password''))" "internal_error (Plain ''other'')"
    by (simp_all add: internal_error_def errorf_def)
  note h = production_hides_details [OF i, of ?cfg mem_lib sample_fiber "\<lambda>k m u. None" sample_broker
      "fresh_ctx (sample_request ''GET'' ''/'')", unfolded if_P [OF p], THEN conjunct1]
  with l show ?thesis by blast
qed

text \<open>
  C40: The grace period of the running reconciler. If the configuration loads, the reconciler
  is enabled and its configured interval is positive, then a sweep of the reconciler that is
  started only considers pending tasks older than its interval.
\<close>

theorem reconciler_grace:
  assumes "Load P env envFile = Inr cfg" and "rc_Enabled (cfg_Reconciler cfg)"
    and "0 < rc_Interval (cfg_Reconciler cfg)"
  shows "ro_Interval (r_opts (wi_reconciler (wire L F mk cfg b)))
           \<le> ro_PendingGrace (r_opts (wi_reconciler (wire L F mk cfg b)))"
proof -
  have "Config_validate cfg = None"
    using assms(1) by (auto simp: Load_def Let_def split: sum.splits option.splits)
  then have "rc_Interval (cfg_Reconciler cfg) \<le> rc_PendingGrace (cfg_Reconciler cfg)"
    using assms(2) by (auto simp: Config_validate_def split: if_splits)
  with assms(3) show ?thesis
    by (simp add: wire_production(3) reconciler_options_of_def with_default_def)
qed

theorem reconciler_grace_witness:
  "\<exists>cfg. sample_load [''RECONCILER_INTERVAL'' \<mapsto> ''5m''] = Inr cfg \<and>
         rc_Interval (cfg_Reconciler cfg) = 5 * minute \<and>
         ro_Interval (r_opts (wi_reconciler (wire mem_lib sample_fiber (\<lambda>k m u. None) cfg sample_broker)))
           \<le> ro_PendingGrace (r_opts (wi_reconciler (wire mem_lib sample_fiber (\<lambda>k m u. None) cfg sample_broker)))"
proof -
  let ?cfg = "config_of_env sample_platform [''RECONCILER_INTERVAL'' \<mapsto> ''5m'']"
  have "Config_validate ?cfg = None" by code_simp
  note l = sample_load [OF this]
  have e: "rc_Enabled (cfg_Reconciler ?cfg)" by code_simp
  have i: "rc_Interval (cfg_Reconciler ?cfg) = 5 * minute" by code_simp
  then have p: "0 < rc_Interval (cfg_Reconciler ?cfg)" by simp
  from reconciler_grace [OF l e p] l i show ?thesis by blast
qed

text \<open>
  An interval of zero passes the validation with any grace period, and the reconciler then
  uses its own default interval: here the sweep is every minute and the grace 30 seconds.
\<close>

lemma zero_interval_passes:
  "\<exists>cfg. sample_load [''RECONCILER_INTERVAL'' \<mapsto> ''0s'', ''RECONCILER_PENDING_GRACE'' \<mapsto> ''30s''] = Inr cfg \<and>
         ro_Interval (r_opts (wi_reconciler (wire L F mk cfg b))) = minute \<and>
         ro_PendingGrace (r_opts (wi_reconciler (wire L F mk cfg b))) = 30 * second"
proof -
  let ?cfg = "config_of_env sample_platform
    [''RECONCILER_INTERVAL'' \<mapsto> ''0s'', ''RECONCILER_PENDING_GRACE'' \<mapsto> ''30s'']"
  have "Config_validate ?cfg = None" by code_simp
  note l = sample_load [OF this]
  have "rc_Interval (cfg_Reconciler ?cfg) = 0" "rc_PendingGrace (cfg_Reconciler ?cfg) = 30 * second"
    by code_simp+
  with l show ?thesis
    by (intro exI [of _ ?cfg])
       (simp add: wire_production(3) reconciler_options_of_def with_default_def)
qed

end
