(* ===== verification/Interleaving.thy ===== *)
theory Interleaving
  imports Effects
begin

text \<open>
  Programs that run at the same time over one environment, interleaved call by call. A fact
  about the calls of each program alone, whatever the replies are (\<open>only\<close>, \<open>always\<close>),
  holds of its part of every interleaving.
\<close>

section \<open>Interleaving programs\<close>

text \<open>
  A trace says which program made which call. It may stop anywhere, so a statement about
  every trace is a statement about every prefix of the work.
\<close>

inductive interleaved ::
  "'w env \<Rightarrow> 'a prog list \<Rightarrow> 'w \<Rightarrow> (nat \<times> event) list \<Rightarrow> 'a prog list \<Rightarrow> 'w \<Rightarrow> bool"
  for E where
  stop: "interleaved E ps w [] ps w"
| move: "k < length ps \<Longrightarrow> step E (ps ! k) w = Some (p, ev, v) \<Longrightarrow>
    interleaved E (ps[k := p]) v tr qs u \<Longrightarrow> interleaved E ps w ((k, ev) # tr) qs u"

inductive_cases interleaved_NilE: "interleaved E ps w [] qs u"
inductive_cases interleaved_ConsE: "interleaved E ps w (x # tr) qs u"

text \<open>Taking turns: in a turn \<open>(k, n)\<close> program \<open>k\<close> makes up to \<open>n\<close> calls.\<close>

primrec advance :: "'w env \<Rightarrow> nat \<Rightarrow> 'a prog \<Rightarrow> 'w \<Rightarrow> event list \<times> 'a prog \<times> 'w" where
  "advance E 0 p w = ([], p, w)"
| "advance E (Suc n) p w =
     (case step E p w of
        None \<Rightarrow> ([], p, w)
      | Some (q, ev, v) \<Rightarrow> (case advance E n q v of (evs, r, u) \<Rightarrow> (ev # evs, r, u)))"

fun run_turns ::
  "'w env \<Rightarrow> (nat \<times> nat) list \<Rightarrow> 'a prog list \<Rightarrow> 'w \<Rightarrow> (nat \<times> event) list \<times> 'a prog list \<times> 'w" where
  "run_turns E [] ps w = ([], ps, w)"
| "run_turns E ((k, n) # ts) ps w =
     (case advance E n (ps ! k) w of (evs, p, v) \<Rightarrow>
        (case run_turns E ts (ps[k := p]) v of (tr, qs, u) \<Rightarrow> (map (Pair k) evs @ tr, qs, u)))"

lemma interleaved_append:
  "interleaved E ps w tr qs v \<Longrightarrow> interleaved E qs v tr' rs u \<Longrightarrow> interleaved E ps w (tr @ tr') rs u"
  by (induction rule: interleaved.induct) (auto intro: interleaved.intros)

lemma interleaved_advance:
  "k < length ps \<Longrightarrow> advance E n (ps ! k) w = (evs, p, v) \<Longrightarrow>
   interleaved E ps w (map (Pair k) evs) (ps[k := p]) v"
proof (induction n arbitrary: ps w evs)
  case (Suc n)
  show ?case
  proof (cases "step E (ps ! k) w")
    case None
    with Suc.prems show ?thesis by (auto intro: interleaved.stop)
  next
    case (Some x)
    obtain q ev u where x: "x = (q, ev, u)" by (cases x)
    with Suc.prems Some obtain evs' where "advance E n q u = (evs', p, v)" "evs = ev # evs'"
      by (auto split: prod.splits)
    with Suc.IH [of "ps[k := q]" u evs'] Suc.prems(1) Some x show ?thesis
      by (auto intro: interleaved.move)
  qed
qed (auto intro: interleaved.stop)

lemma run_turns_interleaved:
  "run_turns E ts ps w = (tr, qs, u) \<Longrightarrow> list_all (\<lambda>t. fst t < length ps) ts \<Longrightarrow>
   interleaved E ps w tr qs u"
  by (induction E ts ps w arbitrary: tr qs u rule: run_turns.induct)
     (auto intro: interleaved.stop intro!: interleaved_append [OF interleaved_advance] split: prod.splits)

definition events_of :: "nat \<Rightarrow> (nat \<times> event) list \<Rightarrow> event list" where
  "events_of k tr = map snd (filter (\<lambda>x. fst x = k) tr)"

lemma events_of_simps [simp]:
  "events_of k [] = []"
  "events_of k ((j, ev) # tr) = (if j = k then ev # events_of k tr else events_of k tr)"
  by (simp_all add: events_of_def)

lemma interleaved_bound: "interleaved E ps w tr qs u \<Longrightarrow> list_all (\<lambda>x. fst x < length ps) tr"
  by (induction rule: interleaved.induct) simp_all

lemma interleaved_length: "interleaved E ps w tr qs u \<Longrightarrow> length qs = length ps"
  by (induction rule: interleaved.induct) simp_all

text \<open>What every call of a program satisfies alone, its calls in the interleaving satisfy.\<close>

lemma interleaved_only:
  "interleaved E ps w tr qs u \<Longrightarrow> k < length ps \<Longrightarrow> only P (ps ! k) \<Longrightarrow>
   list_all P (events_of k tr)"
proof (induction rule: interleaved.induct)
  case (move j ps w p ev v tr qs u)
  have "only P (ps[j := p] ! k)"
    using move.prems move.hyps only_step [OF move.hyps(2), of P] by (cases "j = k") auto
  with move.IH move.prems have "list_all P (events_of k tr)" by simp
  with move.prems only_step [OF move.hyps(2), of P] show ?case by auto
qed simp

lemma interleaved_always:
  "interleaved E ps w tr qs u \<Longrightarrow> k < length ps \<Longrightarrow> always P h (ps ! k) \<Longrightarrow>
   each_after P h (events_of k tr)"
proof (induction arbitrary: h rule: interleaved.induct)
  case (move j ps w p ev v tr qs u)
  show ?case
  proof (cases "j = k")
    case True
    with always_step [OF move.hyps(2), of P h] move.prems
    have "P h ev" "always P (h @ [ev]) p" by auto
    with move.IH [of "h @ [ev]"] move.prems(1) True show ?thesis by simp
  next
    case False
    with move.IH [of h] move.prems show ?thesis by simp
  qed
qed simp

lemma interleaved_invariant:
  "interleaved E ps w tr qs u \<Longrightarrow> list_all (only P) ps \<Longrightarrow>
   (\<And>ev w w'. P ev \<Longrightarrow> answers E w ev w' \<Longrightarrow> I w \<Longrightarrow> I w') \<Longrightarrow> I w \<Longrightarrow> I u"
proof (induction rule: interleaved.induct)
  case (move k ps w p ev v tr qs u)
  have "only P (ps ! k)" using move.hyps(1) move.prems(1) by (simp add: list_all_length)
  note s = only_step [OF move.hyps(2) this]
  have "only P (ps[k := p] ! j)" if "j < length ps" for j
    using s move.prems(1) that by (cases "j = k") (auto simp: list_all_length)
  then have "list_all (only P) (ps[k := p])" by (simp add: list_all_length)
  moreover have "I v" using s step_answers [OF move.hyps(2)] move.prems(2,3) by blast
  ultimately show ?case using move.IH move.prems(2) by blast
qed simp

text \<open>Counting by process.\<close>

lemma count_by_process:
  assumes "list_all (\<lambda>x. fst x < n) tr"
  shows "length (filter (\<lambda>x. A (fst x) \<and> P (snd x)) tr) =
    (\<Sum>k<n. if A k then length (filter P (events_of k tr)) else 0)"
  using assms
proof (induction tr)
  case (Cons x tr)
  obtain k ev where x: "x = (k, ev)" by fastforce
  have "(\<Sum>j<n. if A j then length (filter P (events_of j (x # tr))) else 0) =
      (\<Sum>j<n. (if A j then length (filter P (events_of j tr)) else 0) +
             (if j = k then if A k \<and> P ev then 1 else 0 else 0))"
    by (rule sum.cong) (auto simp: x)
  also have "\<dots> = (\<Sum>j<n. if A j then length (filter P (events_of j tr)) else 0) +
      (if A k \<and> P ev then 1 else 0)"
    using Cons.prems x by (simp add: sum.distrib)
  finally show ?case using Cons x by simp
qed simp

end
