(* ===== verification/System_Interleaving.thy ===== *)
theory System_Interleaving
  imports Service_Start Interleaving
begin

text \<open>
  The whole system at work: any number of HTTP requests, deliveries and sweeps, in one or
  in several copies of the service, interleaved call by call over the same database, Redis
  and broker. Every process is one of the programs that \<^verbatim>\<open>cmd/api/main.go\<close> builds
  (\<open>wire\<close>). What each of them may write, proved of it alone, gives an invariant of the
  table and a bound on the paid calls to the model; a race between two sweeps shows that
  the bound is reached.
\<close>

section \<open>What the programs may write\<close>

text \<open>
  A row as the service writes it: never failed, with a title of 1 to 255 bytes and a
  description of at most 20000. \<open>good_write\<close> lists the writes that the programs make;
  in particular none of them saves a whole row.
\<close>

definition row_ok :: "task \<Rightarrow> bool" where
  "row_ok t \<longleftrightarrow>
     Status t \<in> {TaskStatusPending, TaskStatusProcessing, TaskStatusCompleted} \<and>
     Title t \<noteq> '''' \<and> length (Title t) \<le> 255 \<and> length (Description t) \<le> 20000"

definition rows_ok :: "table \<Rightarrow> bool" where
  "rows_ok m \<longleftrightarrow> (\<forall>i t. m i = Some t \<longrightarrow> row_ok t)"

definition claims :: "uuid \<Rightarrow> stmt \<Rightarrow> bool" where
  "claims i s \<longleftrightarrow>
     s = Updates (CondAnd (IdIs i) (StatusIs TaskStatusPending)) [SetStatus TaskStatusProcessing]"

fun moves_status :: "uuid \<Rightarrow> TaskStatus \<Rightarrow> stmt \<Rightarrow> bool" where
  "moves_status i st (Updates (IdIs j) [SetStatus s]) \<longleftrightarrow> j = i \<and> s = st"
| "moves_status i st (Updates (IdIs j) [SetStatus s, SetSummary sm]) \<longleftrightarrow>
     j = i \<and> s = st \<and> sm \<noteq> ''''"
| "moves_status i st _ \<longleftrightarrow> False"

fun good_write :: "event \<Rightarrow> bool" where
  "good_write (ECreate t r) \<longleftrightarrow> row_ok t \<and> Status t = TaskStatusPending \<and> DeletedAt t = None"
| "good_write (EExec s r) \<longleftrightarrow>
     (\<exists>i. claims i s \<or> moves_status i TaskStatusPending s \<or> moves_status i TaskStatusCompleted s \<or>
          s = Delete (IdIs i))"
| "good_write _ \<longleftrightarrow> True"

lemma quiet_good: "\<not> db_event ev \<Longrightarrow> good_write ev"
  by (cases ev) simp_all

lemma llm_good: "llm_event ev \<Longrightarrow> good_write ev"
  by (cases ev) simp_all

lemma moves_statusE:
  assumes "moves_status i st s"
  obtains sm where "s = Updates (IdIs i) ([SetStatus st] @ (if sm \<noteq> '''' then [SetSummary sm] else []))"
proof (cases "(i, st, s)" rule: moves_status.cases)
  case (1 i' st' j s')
  with assms that [of "''''"] show ?thesis by simp
next
  case (2 i' st' j s' sm)
  with assms that [of sm] show ?thesis by simp
qed (use assms in simp_all)

subsection \<open>The programs of the service\<close>

abbreviation tame :: "event \<Rightarrow> bool" where
  "tame ev \<equiv> good_write ev \<and> \<not> llm_event ev"


lemma repository_good:
  "row_ok t \<Longrightarrow> Status t = TaskStatusPending \<Longrightarrow> DeletedAt t = None \<Longrightarrow>
   only tame (taskRepository_Create t)"
  "only tame (taskRepository_GetByID i)" "only tame (taskRepository_List limit offset)"
  "only tame (taskRepository_Delete i)" "only tame (taskRepository_MarkProcessing i)"
  "only tame (taskRepository_FindStale pb qb n)"
  "st = TaskStatusPending \<or> st = TaskStatusCompleted \<Longrightarrow>
   only tame (taskRepository_UpdateStatus i st sm)"
  by (auto simp: repo_defs row_ok_def claims_def Let_def split: sum.split)

lemma validated_row:
  "CreateTaskInput_validate inp = None \<Longrightarrow>
   row_ok (zero_task\<lparr>Title := in_Title inp, Description := in_Description inp,
                      Status := TaskStatusPending\<rparr>)"
  by (auto simp: CreateTaskInput_validate_def row_ok_def split: if_splits)

lemma service_good:
  "only tame (TaskService_Create L (production_service b) inp)"
  "only tame (TaskService_Get L (production_service b) i)"
  "only tame (TaskService_List (production_service b) limit offset)"
  "only tame (TaskService_Delete (production_service b) i)"
  "only tame (TaskService_BeginProcessing (production_service b) i)"
  "only tame (TaskService_FindStale (production_service b) pb qb n)"
  "only tame (TaskService_MarkPending (production_service b) i)"
  "only tame (TaskService_RepublishCreated L (production_service b) t)"
  "only tame (TaskService_ApplySummary L (production_service b) i sm)"
proof -
  have pub: "only tame (Broker_Publish b key body)" for key body
    by (simp add: Broker_Publish_def split: option.split sum.split)
  have new: "only tame (event_New L key m)" for key m
    by (cases m) (simp_all add: event_New_def)
  have cache: "only tame (TaskService_cacheSet L key t)" for key t
    by (simp add: TaskService_cacheSet_def split: sum.split)
  show c: "only tame (TaskService_Create L (production_service b) inp)"
    by (auto simp: TaskService_Create_def Let_def zero_task_def intro!: only_pbind repository_good(1) pub new
        dest: validated_row split: option.split sum.split)
  show "only tame (TaskService_Get L (production_service b) i)"
    "only tame (TaskService_List (production_service b) limit offset)"
    "only tame (TaskService_Delete (production_service b) i)"
    "only tame (TaskService_BeginProcessing (production_service b) i)"
    "only tame (TaskService_FindStale (production_service b) pb qb n)"
    by (auto simp: TaskService_Get_def TaskService_List_def TaskService_Delete_def
        TaskService_BeginProcessing_def TaskService_FindStale_def Let_def
        intro!: only_pbind repository_good cache split: option.split sum.split)
  show m: "only tame (TaskService_MarkPending (production_service b) i)" for i
    by (auto simp: TaskService_MarkPending_def intro!: only_pbind repository_good split: option.split)
  show "only tame (TaskService_RepublishCreated L (production_service b) t)"
    by (auto simp: TaskService_RepublishCreated_def TaskService_emitCreated_def
        intro!: only_pbind m pub new split: option.split sum.split)
  show "only tame (TaskService_ApplySummary L (production_service b) i sm)"
    by (auto simp: TaskService_ApplySummary_def intro!: only_pbind repository_good cache
        split: option.split sum.split)
qed

lemma tame_good: "only tame p \<Longrightarrow> only good_write p"
  by (erule only_mono) simp

lemmas good_service = service_good [THEN tame_good]

context worker_stack
begin

lemma Handle_good:
  assumes "P = Broker_Publish b" "R = NewTaskRepository"
  shows "only good_write (TaskSummarizer_Handle L (worker dd) body)"
proof -
  have sum: "only good_write (lc_Summarize C x)" for x
    by (rule only_mono [OF summarize_calls llm_good])
  have dd: "only good_write (Dedupe_Claim L d ev)" "only good_write (Dedupe_Release d ev)" for d ev
    by (rule only_mono [OF Claim_no_db], simp add: quiet_good)
       (rule only_mono [OF Release_no_db], simp add: quiet_good)
  have gb: "only good_write (Summarizer_give_back (worker d) ev i err)" for d ev i err
    unfolding Summarizer_give_back_def assms
    by (auto intro!: only_pbind good_service dd split: option.split)
  show ?thesis
    unfolding TaskSummarizer_Handle_def Summarizer_process_def Summarizer_summarize_def
    by (auto intro!: only_pbind dd gb sum good_service [where b = b, folded assms] split: option.split sum.split)
qed

end

lemma production_stack: "llm_contract C \<Longrightarrow> worker_stack NewTaskRepository gorm_laws (Broker_Publish b) C"
  by (intro worker_stack.intro stack.service_stack_axioms)

lemma retry_quiet: "only (\<lambda>ev. \<not> db_event ev \<and> \<not> llm_event ev) (Consumer_retryOrDeadLetter c d)"
  by (auto simp: Consumer_retryOrDeadLetter_def Let_def split: option.split)

lemma sweep_calls:
  assumes "\<And>pb qb n. only Q (TaskService_FindStale s pb qb n)"
    and "\<And>t. only Q (TaskService_RepublishCreated L s t)" and "\<And>t. Q (ENow t)"
  shows "only Q (Reconciler_Sweep (Reconciler_New (service_tasks L s) (reconciler_options_of rc)))"
proof -
  have "only Q (republish_all (service_tasks L s) ts k)" for ts k
    using assms(2) by (induction ts arbitrary: k) (auto split: option.split)
  then show ?thesis
    using assms(1,3)
    by (auto simp: Reconciler_Sweep_def reconciler_now_def Reconciler_New_def reconciler_options_of_def
        intro!: only_pbind split: sum.split option.split)
qed

text \<open>The routes: a stage that makes only such calls itself and then runs the rest of the chain.\<close>

locale calling_stage =
  fixes Q :: "event \<Rightarrow> bool" and mw :: middleware
  assumes calls: "(\<And>c. only Q (next c)) \<Longrightarrow> only Q (mw next c)"

lemma endpoint_calling: "(\<And>c. only Q (h c)) \<Longrightarrow> calling_stage Q (endpoint h)"
  by unfold_locales simp

interpretation limiter_writes: calling_stage tame "RateLimiter redisRateIncrementer limit window"
  for limit window
  by unfold_locales
     (auto simp: RateLimiter_def redisRateIncrementer_def Let_def intro!: only_pbind split: sum.split)

interpretation recoverer_writes: calling_stage tame Recoverer
  by unfold_locales (auto simp: Recoverer_def intro!: only_pbind split: completion.split)

interpretation request_id_writes: calling_stage tame RequestID
  by unfold_locales (auto simp: RequestID_def Let_def)

lemma run_routes_calls:
  "list_all (\<lambda>(key, mw). calling_stage Q mw) rs \<Longrightarrow> only Q (run_routes F rs c)"
proof (induction rs arbitrary: c)
  case (Cons r rs)
  obtain key mw where r: "r = (key, mw)" by fastforce
  with Cons have "only Q (mw (run_routes F rs) c)" "only Q (run_routes F rs c)"
    by (auto intro: calling_stage.calls)
  with r show ?case by simp
qed simp

lemma handlers_good:
  "only tame (TaskHandler_Create L F (production_service b) c)"
  "only tame (TaskHandler_Get L F (production_service b) c)"
  "only tame (TaskHandler_List L F (production_service b) c)"
  "only tame (TaskHandler_Delete L F (production_service b) c)"
  "only tame (Health_Live c)" "only tame (Health_Ready c)" "only tame (NotFound c)"
  by (auto simp: TaskHandler_Create_def TaskHandler_Get_def TaskHandler_List_def TaskHandler_Delete_def
      Health_Live_def Health_Ready_def NotFound_def Let_def intro!: only_pbind service_good
      split: option.split sum.split)

section \<open>The processes of the system\<close>

text \<open>
  A request that the HTTP server answers, a delivery that the consumer handles and settles,
  one sweep of the reconciler. The sweeps of one reconciler follow each other; here they
  may also overlap, as those of several copies of the service do.
\<close>

datatype process = ServeRequest request | HandleDelivery delivery | SweepOnce

definition process_prog ::
  "lib \<Rightarrow> fiber \<Rightarrow> (string \<Rightarrow> string \<Rightarrow> string \<Rightarrow> goerror option) \<Rightarrow> config \<Rightarrow> broker \<Rightarrow>
     process \<Rightarrow> unit prog" where
  "process_prog L F openai_New cfg brk p =
     (let wi = wire L F openai_New cfg brk
      in case p of
           ServeRequest rq \<Rightarrow> forget (serve F (fa_includeDetail (wi_app wi)) (wi_routes wi) rq)
         | HandleDelivery d \<Rightarrow>
             Consumer_handle (worker_consumer L (wi_worker wi) (b_prefetch brk)) d
         | SweepOnce \<Rightarrow> forget (Reconciler_Sweep (wi_reconciler wi)))"

lemma process_prog_code [code]:
  "process_prog L F mk cfg b p =
     (case p of
        ServeRequest rq \<Rightarrow> forget (serve F (fa_includeDetail (newFiberApp cfg))
          (NewRouter L F (limited_deps (production_service b) redisRateIncrementer 100 (60 * second))) rq)
      | HandleDelivery d \<Rightarrow>
          Consumer_handle (worker_consumer L (NewTaskSummarizer (production_service b)
            (choose_llm mk (cfg_LLM cfg)) (Some (NewDedupe (rc_DedupeTTL (cfg_Reconciler cfg)))))
            (b_prefetch b)) d
      | SweepOnce \<Rightarrow> forget (Reconciler_Sweep
          (production_reconciler L b (reconciler_options_of (cfg_Reconciler cfg)))))"
proof -
  have "wi_app (wire L F mk cfg b) = newFiberApp cfg" by (simp add: wire_def Let_def)
  then show ?thesis by (cases p) (simp_all add: process_prog_def Let_def wire_production)
qed

text \<open>Requests and sweeps never call the model.\<close>

lemma process_tame: "\<nexists>d. p = HandleDelivery d \<Longrightarrow> only tame (process_prog L F mk cfg b p)"
proof (cases p)
  case (ServeRequest rq)
  have "only tame (run_routes F (wi_routes (wire L F mk cfg b)) c)" for c
    unfolding wire_production
    by (rule run_routes_calls)
       (simp add: NewRouter_def limited_deps_def Let_def endpoint_calling handlers_good
         request_id_writes.calling_stage_axioms recoverer_writes.calling_stage_axioms
         limiter_writes.calling_stage_axioms)
  with ServeRequest show ?thesis
    by (auto simp: process_prog_def Let_def serve_def intro!: only_forget only_pbind)
next
  case SweepOnce
  have "only tame (Reconciler_Sweep (wi_reconciler (wire L F mk cfg b)))"
    unfolding wire_production by (rule sweep_calls) (simp_all add: service_good)
  with SweepOnce show ?thesis
    by (auto simp: process_prog_def Let_def intro: only_forget)
qed simp

lemma process_good: "only good_write (process_prog L F mk cfg b p)"
proof (cases p)
  case (HandleDelivery d)
  note h = worker_stack.Handle_good [OF production_stack [OF choose_llm_contract] refl refl]
  have r: "only good_write (Consumer_retryOrDeadLetter c d)" for c
    by (rule only_mono [OF retry_quiet]) (simp add: quiet_good)
  with HandleDelivery h show ?thesis
    by (auto simp: process_prog_def Let_def Consumer_handle_def wire_production
        intro!: only_pbind split: option.split)
qed (rule tame_good, rule process_tame, simp)+

section \<open>What a good write does to the table\<close>

lemma rows_ok_upd: "rows_ok m \<Longrightarrow> (\<And>t. x = Some t \<Longrightarrow> row_ok t) \<Longrightarrow> rows_ok (m(i := x))"
  by (simp add: rows_ok_def)

lemma moved_row:
  "fold apply_assign ([SetStatus st] @ (if sm \<noteq> '''' then [SetSummary sm] else [])) t =
   t\<lparr>Status := st, Summary := (if sm = '''' then Summary t else sm)\<rparr>"
  by simp

text \<open>The table after one of the four statements, as an update of one row.\<close>

lemma good_stmt:
  assumes "table_ok m"
  shows "claims i s \<Longrightarrow> stmt_effect ts s m =
      (case m i of
         None \<Rightarrow> m
       | Some t \<Rightarrow> if Status t = TaskStatusPending
                   then m(i \<mapsto> t\<lparr>Status := TaskStatusProcessing, UpdatedAt := ts\<rparr>) else m)"
    and "moves_status i st s \<Longrightarrow> \<exists>sm. stmt_effect ts s m =
      (case m i of None \<Rightarrow> m | Some t \<Rightarrow> m(i \<mapsto> t\<lparr>Status := st, Summary := sm t, UpdatedAt := ts\<rparr>))"
    and "stmt_effect ts (Delete (IdIs i)) m = m(i := None)"
proof -
  show "claims i s \<Longrightarrow> stmt_effect ts s m =
      (case m i of
         None \<Rightarrow> m
       | Some t \<Rightarrow> if Status t = TaskStatusPending
                   then m(i \<mapsto> t\<lparr>Status := TaskStatusProcessing, UpdatedAt := ts\<rparr>) else m)"
    using assms by (simp add: claims_def law_simps split: option.split)
  show "\<exists>sm. stmt_effect ts s m =
      (case m i of None \<Rightarrow> m | Some t \<Rightarrow> m(i \<mapsto> t\<lparr>Status := st, Summary := sm t, UpdatedAt := ts\<rparr>))"
    if move: "moves_status i st s"
  proof -
    from move obtain x
      where s: "s = Updates (IdIs i) ([SetStatus st] @ (if x \<noteq> '''' then [SetSummary x] else []))"
      by (rule moves_statusE)
    show ?thesis
      using assms
      by (intro exI [of _ "\<lambda>t. if x = '''' then Summary t else x"])
         (simp add: s law_simps moved_row del: fold_simps append.simps split: option.split)
  qed
  show "stmt_effect ts (Delete (IdIs i)) m = m(i := None)"
    using assms by (auto simp: law_simps fun_eq_iff split: option.split)
qed

lemma db_rel_exec:
  "db_rel lo hi m (EExec s r) m' \<Longrightarrow> m' = m \<or> (\<exists>ts. m' = stmt_effect ts s m)"
  by (cases r) auto

lemma db_rel_create:
  "db_rel lo hi m (ECreate t r) m' \<Longrightarrow>
   m' = m \<or> (\<exists>ts x. stored_as (stamp ts t) x \<and> m (ID t) = None \<and> m' = m(ID t \<mapsto> x))"
  by (cases r) (auto split: if_splits)

lemma db_rel_read:
  "db_rel lo hi m ev m' \<Longrightarrow> (\<And>t r. ev \<noteq> ECreate t r) \<Longrightarrow> (\<And>s r. ev \<noteq> EExec s r) \<Longrightarrow> m' = m"
  by (cases ev) (auto elim: db_rel.elims)

lemma row_ok_simps [simp]:
  "row_ok (t\<lparr>UpdatedAt := x\<rparr>) = row_ok t" "row_ok (t\<lparr>Summary := sm\<rparr>) = row_ok t"
  "st \<in> {TaskStatusPending, TaskStatusProcessing, TaskStatusCompleted} \<Longrightarrow>
   row_ok t \<Longrightarrow> row_ok (t\<lparr>Status := st\<rparr>)"
  by (simp_all add: row_ok_def)

lemma stored_row_ok: "stored_as (stamp ts t) r \<Longrightarrow> row_ok r = row_ok t \<and> Status r = Status t"
  by (cases r) (auto simp: stored_as_def row_ok_def stamp_def)

lemma good_write_rows:
  assumes "gorm_laws E V" "answers E w ev w'" "good_write ev" "rows_ok (rows V w)"
  shows "rows_ok (rows V w')"
proof -
  note rel = gorm_rel [OF assms(1,2)] and ok = gorm_table_ok [OF assms(1), of w]
  consider (create) t r where "ev = ECreate t r" | (exec) s r where "ev = EExec s r"
    | (other) "\<And>t r. ev \<noteq> ECreate t r" "\<And>s r. ev \<noteq> EExec s r" by metis
  then show ?thesis
  proof cases
    case create
    with db_rel_create rel assms(3,4) show ?thesis
      by (fastforce intro!: rows_ok_upd dest: stored_row_ok)
  next
    case exec
    have "rows_ok (stmt_effect ts s (rows V w))" for ts
    proof -
      from exec assms(3) obtain i where
        "claims i s \<or> moves_status i TaskStatusPending s \<or> moves_status i TaskStatusCompleted s \<or>
         s = Delete (IdIs i)" by auto
      moreover have "row_ok t" if "rows V w i = Some t" for t i
        using assms(4) that by (auto simp: rows_ok_def)
      ultimately show ?thesis
        using good_stmt(1) [OF ok, of i s ts] good_stmt(2) [OF ok, of i _ s ts] good_stmt(3) [OF ok, of ts i]
          assms(4)
        by (elim disjE) (fastforce intro!: rows_ok_upd split: option.split)+
    qed
    with exec rel assms(4) show ?thesis by (auto dest: db_rel_exec)
  next
    case other
    with db_rel_read [OF rel] assms(4) show ?thesis by metis
  qed
qed

section \<open>How often the model is paid\<close>

text \<open>
  A chance for a task: an attempt to store it, or a statement that sets its row to pending,
  whatever they answer. Every claim that is won uses up a pending row.
\<close>

fun chance :: "uuid \<Rightarrow> event \<Rightarrow> bool" where
  "chance i (ECreate t r) \<longleftrightarrow> ID t = i"
| "chance i (EExec s r) \<longleftrightarrow> moves_status i TaskStatusPending s"
| "chance i _ \<longleftrightarrow> False"

definition waiting :: "uuid \<Rightarrow> table \<Rightarrow> nat" where
  "waiting i m =
     (case m i of None \<Rightarrow> 0 | Some t \<Rightarrow> if Status t = TaskStatusPending then 1 else 0)"

definition count :: "(event \<Rightarrow> bool) \<Rightarrow> (nat \<times> event) list \<Rightarrow> nat" where
  "count P tr = length (filter (\<lambda>x. P (snd x)) tr)"

lemma count_simps [simp]:
  "count P [] = 0" "count P ((k, ev) # tr) = (if P ev then Suc (count P tr) else count P tr)"
  by (simp_all add: count_def)

lemma waiting_le: "waiting i m \<le> 1"
  by (simp add: waiting_def split: option.split)

lemma waiting_upd:
  "waiting i (m(j := x)) =
     (if i = j then (case x of None \<Rightarrow> 0 | Some t \<Rightarrow> if Status t = TaskStatusPending then 1 else 0)
      else waiting i m)"
  by (simp add: waiting_def)

lemma claim_wonE:
  assumes "claim_won i ev"
  obtains "ev = EExec (Updates (CondAnd (IdIs i) (StatusIs TaskStatusPending))
                         [SetStatus TaskStatusProcessing]) (Inr 1)"
  using assms by (cases "(i, ev)" rule: claim_won.cases) auto

lemma won_claim:
  assumes "gorm_laws E V" "answers E w ev w'" "claim_won i ev"
  shows "waiting i (rows V w) = 1 \<and> waiting i (rows V w') = 0 \<and> \<not> chance i ev"
  using gorm_rel [OF assms(1,2)] gorm_table_ok [OF assms(1), of w] assms(3)
  by (elim claim_wonE) (auto simp: waiting_def law_simps split: option.splits if_splits)

lemma lost_pending:
  assumes "gorm_laws E V" "answers E w ev w'" "good_write ev" "\<not> chance i ev"
  shows "waiting i (rows V w') \<le> waiting i (rows V w)"
proof -
  note rel = gorm_rel [OF assms(1,2)] and ok = gorm_table_ok [OF assms(1), of w]
  consider (create) t r where "ev = ECreate t r" | (exec) s r where "ev = EExec s r"
    | (other) "\<And>t r. ev \<noteq> ECreate t r" "\<And>s r. ev \<noteq> EExec s r" by metis
  then show ?thesis
  proof cases
    case create
    with db_rel_create rel assms(4) show ?thesis by (fastforce simp: waiting_upd)
  next
    case exec
    have "waiting i (stmt_effect ts s (rows V w)) \<le> waiting i (rows V w)" for ts
    proof -
      from exec assms(3) obtain j where
        "claims j s \<or> moves_status j TaskStatusPending s \<or> moves_status j TaskStatusCompleted s \<or>
         s = Delete (IdIs j)" by auto
      then show ?thesis
        using good_stmt(1) [OF ok, of j s ts] good_stmt(2) [OF ok, of j _ s ts] good_stmt(3) [OF ok, of ts j]
          exec assms(4)
        by (elim disjE) (fastforce simp: waiting_upd split: option.split)+
    qed
    with exec rel show ?thesis by (auto dest: db_rel_exec)
  next
    case other
    with db_rel_read [OF rel] show ?thesis by simp
  qed
qed

lemma claims_budget:
  "interleaved E ps w tr qs u \<Longrightarrow> gorm_laws E V \<Longrightarrow> list_all (only good_write) ps \<Longrightarrow>
   count (claim_won i) tr + waiting i (rows V u) \<le> waiting i (rows V w) + count (chance i) tr"
proof (induction rule: interleaved.induct)
  case (move k ps w p ev v tr qs u)
  have "only good_write (ps ! k)" using move.hyps(1) move.prems(2) by (simp add: list_all_length)
  note s = only_step [OF move.hyps(2) this]
  have "only good_write (ps[k := p] ! j)" if "j < length ps" for j
    using s move.prems(2) that by (cases "j = k") (auto simp: list_all_length)
  then have ih: "count (claim_won i) tr + waiting i (rows V u)
      \<le> waiting i (rows V v) + count (chance i) tr"
    using move.IH move.prems(1) by (simp add: list_all_length)
  note ans = step_answers [OF move.hyps(2)]
  have "(if claim_won i ev then 1 else 0) + waiting i (rows V v)
      \<le> waiting i (rows V w) + (if chance i ev then 1 else 0)"
    using won_claim [OF move.prems(1) ans, of i] lost_pending [OF move.prems(1) ans, of i] s
      waiting_le [of i "rows V v"] by auto
  with ih show ?case by (simp split: if_splits)
qed simp

text \<open>The task a process is paid for: the one named by the message of its delivery.\<close>

definition for_task :: "lib \<Rightarrow> uuid \<Rightarrow> process \<Rightarrow> bool" where
  "for_task L i p =
     (case p of
        HandleDelivery d \<Rightarrow>
          (case message_of L (d_Body d) of None \<Rightarrow> False | Some (ev, pl) \<Rightarrow> pl_TaskID pl = i)
      | _ \<Rightarrow> False)"

definition paid_calls :: "lib \<Rightarrow> uuid \<Rightarrow> process list \<Rightarrow> (nat \<times> event) list \<Rightarrow> nat" where
  "paid_calls L i ps tr = length (filter (\<lambda>x. for_task L i (ps ! fst x) \<and> llm_event (snd x)) tr)"

lemma handle_pays:
  "case message_of L (d_Body d) of
     None \<Rightarrow> only (\<lambda>ev. \<not> llm_event ev) (process_prog L F mk cfg b (HandleDelivery d))
   | Some (ev, pl) \<Rightarrow>
       always (pays_after_claim (pl_TaskID pl)) [] (process_prog L F mk cfg b (HandleDelivery d))"
proof -
  note h = worker_stack.Handle_pays
    [OF production_stack [OF choose_llm_contract [of mk "cfg_LLM cfg"]] refl, where L = L and body = "d_Body d"]
  have r: "only (\<lambda>ev. \<not> llm_event ev) (case x of
      Some err \<Rightarrow> Consumer_retryOrDeadLetter c d | None \<Rightarrow> Amqp (Ack (d_Tag d)) (\<lambda>err. Return ()))" for x c
    by (cases x) (auto intro: only_mono [OF retry_quiet])
  show ?thesis
  proof (cases "message_of L (d_Body d)")
    case None
    note h = h [unfolded None option.case]
    from None r show ?thesis
      by (auto simp: process_prog_def Let_def Consumer_handle_def wire_production
          intro!: only_pbind only_mono [OF h])
  next
    case (Some m)
    with h r show ?thesis
      by (auto simp: process_prog_def Let_def Consumer_handle_def wire_production
          intro!: always_pbind_quiet pays_other split: prod.split)
  qed
qed

lemma program_pays:
  "for_task L i p \<Longrightarrow> always (pays_after_claim i) [] (process_prog L F mk cfg b p)"
  using handle_pays [where L = L and F = F and mk = mk and cfg = cfg and b = b]
  by (auto simp: for_task_def split: process.splits option.splits) (metis option.case case_prod_conv)

lemma process_unpaid:
  "\<nexists>i. for_task L i p \<Longrightarrow> only (\<lambda>ev. \<not> llm_event ev) (process_prog L F mk cfg b p)"
proof (cases p)
  case (HandleDelivery d)
  assume "\<nexists>i. for_task L i p"
  with HandleDelivery have "message_of L (d_Body d) = None"
    by (cases "message_of L (d_Body d)") (auto simp: for_task_def split: prod.splits)
  with handle_pays [where L = L and F = F and mk = mk and cfg = cfg and b = b and d = d] HandleDelivery show ?thesis by simp
qed (rule only_mono [OF process_tame], simp_all)+

text \<open>One program pays at most once, after a claim of its own.\<close>

lemma paid_no_more:
  "each_after (pays_after_claim i) h evs \<Longrightarrow> list_ex llm_event h \<Longrightarrow> filter llm_event evs = []"
proof (induction evs arbitrary: h)
  case (Cons ev evs)
  from Cons.prems have "\<not> llm_event ev" by (cases ev) (auto simp: list_all_iff list_ex_iff)
  with Cons.IH [of "h @ [ev]"] Cons.prems show ?case by simp
qed simp

lemma pays_le_claims:
  "each_after (pays_after_claim i) h evs \<Longrightarrow>
   length (filter llm_event evs) \<le> length (filter (claim_won i) (h @ evs))"
proof (induction evs arbitrary: h)
  case (Cons ev evs)
  show ?case
  proof (cases "llm_event ev")
    case True
    with Cons.prems have "list_ex (claim_won i) h" by (cases ev) simp_all
    then have "filter (claim_won i) h \<noteq> []" by (simp add: filter_empty_conv list_ex_iff)
    moreover have "filter llm_event evs = []"
      using Cons.prems True by (intro paid_no_more [of i "h @ [ev]"]) simp_all
    ultimately show ?thesis using True by (cases "filter (claim_won i) h") simp_all
  next
    case False
    with Cons.IH [of "h @ [ev]"] Cons.prems show ?thesis by simp
  qed
qed simp

section \<open>A race\<close>

text \<open>
  Two copies of the service sweep at the same time, with the default configuration and a
  database, Redis and broker that never fail (\<open>mem_env\<close>). The table holds one task that
  was left processing an hour ago. The programs: the two sweeps, and the deliveries of the
  two messages they publish.
\<close>

definition race_start :: mem where
  "race_start = (mem_with [sample_task TaskStatusProcessing])\<lparr>m_clock := 60 * minute\<rparr>"

definition message_with :: "string \<Rightarrow> string \<Rightarrow> bytes" where
  "message_with event_id timestamp =
     Json (JObj
       [(''id'', JStr event_id), (''type'', JStr ''task.created''), (''timestamp'', JStr timestamp),
        (''payload'', JObj
           [(''task_id'', JStr (uuid_String sample_id)), (''title'', JStr ''Write docs''),
            (''description'', JStr ''the API'')])])"

definition race_messages :: "bytes list" where
  "race_messages =
     [message_with ''00000000-0000-4000-8000-000000000001'' ''3600000000002'',
      message_with ''00000000-0000-4000-8000-000000000002'' ''3600000000005'']"

definition race :: "process list" where
  "race = [SweepOnce, SweepOnce] @
     map (\<lambda>m. HandleDelivery (sample_delivery\<lparr>d_Body := m\<rparr>)) race_messages"

abbreviation sample_process :: "process \<Rightarrow> unit prog" where
  "sample_process \<equiv> process_prog mem_lib sample_fiber (\<lambda>token model url. None)
     (config_of_env sample_platform [''LLM_API_KEY'' \<mapsto> ''k'']) sample_broker"

text \<open>
  The first sweep reads its batch; the second one runs to its end and its message is
  handled; then the first sweep goes on with what it read, and its message is handled.
\<close>

definition first_turns :: "(nat \<times> nat) list" where "first_turns = [(0, 2), (1, 9), (2, 9)]"
definition last_turns :: "(nat \<times> nat) list" where "last_turns = [(0, 7), (3, 9)]"

fun returned :: "'a prog \<Rightarrow> bool" where
  "returned (Return a) \<longleftrightarrow> True"
| "returned _ \<longleftrightarrow> False"

fun published_body :: "event \<Rightarrow> bytes option" where
  "published_body (EAmqp (PublishConfirm x key p) None) = Some (p_Body p)"
| "published_body _ = None"

definition published :: "(nat \<times> event) list \<Rightarrow> bytes list" where
  "published tr = List.map_filter published_body (map snd tr)"

abbreviation race_status :: "mem \<Rightarrow> TaskStatus option" where
  "race_status u \<equiv> map_option Status (mem_rows u sample_id)"

lemma race_run:
  "case run_turns mem_env first_turns (map sample_process race) race_start of (tr, qs, v) \<Rightarrow>
     (case run_turns mem_env last_turns qs v of (tr', rs, u) \<Rightarrow>
        list_all returned rs \<and> published tr @ published tr' = race_messages \<and>
        race_status v = Some TaskStatusCompleted \<and>
        paid_calls mem_lib sample_id race tr = 1 \<and> count (chance sample_id) tr = 1 \<and>
        paid_calls mem_lib sample_id race tr' = 1 \<and> count (chance sample_id) tr' = 1)"
  by code_simp

lemma race_parts:
  obtains tr qs v tr' rs u where
    "interleaved mem_env (map sample_process race) race_start tr qs v"
    "interleaved mem_env qs v tr' rs u"
    "list_all returned rs" "published tr @ published tr' = race_messages"
    "race_status v = Some TaskStatusCompleted"
    "paid_calls mem_lib sample_id race tr = 1" "count (chance sample_id) tr = 1"
    "paid_calls mem_lib sample_id race tr' = 1" "count (chance sample_id) tr' = 1"
proof -
  obtain tr qs v where 1: "run_turns mem_env first_turns (map sample_process race) race_start = (tr, qs, v)"
    by (cases "run_turns mem_env first_turns (map sample_process race) race_start") auto
  obtain tr' rs u where 2: "run_turns mem_env last_turns qs v = (tr', rs, u)"
    by (cases "run_turns mem_env last_turns qs v") auto
  have l: "length race = 4" by (simp add: race_def race_messages_def)
  then have i: "interleaved mem_env (map sample_process race) race_start tr qs v"
    by (intro run_turns_interleaved [OF 1]) (simp add: first_turns_def)
  from interleaved_length [OF i] l have "length qs = 4" by simp
  then have j: "interleaved mem_env qs v tr' rs u"
    by (intro run_turns_interleaved [OF 2]) (simp add: last_turns_def)
  show ?thesis using race_run by (intro that [OF i j]) (simp_all add: 1 2)
qed

section \<open>Properties\<close>

text \<open>
  C6: Rows keep the service's form under any interleaving. Start from a table in which every
  task is pending, processing or completed, has a title of 1 to 255 bytes and a description
  of at most 20000. However many requests, deliveries and sweeps of however many copies of
  the service run, whatever they are about, in whatever order their calls happen and
  whichever of them fail, every task of the table has this form at every moment; in
  particular no task ever becomes failed.
\<close>

theorem rows_stay_ok:
  assumes "gorm_laws E V" and "rows_ok (rows V w)"
    and "interleaved E (map (process_prog L F mk cfg b) ps) w tr qs u"
  shows "rows_ok (rows V u)"
proof -
  have "list_all (only good_write) (map (process_prog L F mk cfg b) ps)"
    by (simp add: list_all_iff process_good)
  then show ?thesis
    using interleaved_invariant [OF assms(3), of good_write "\<lambda>w. rows_ok (rows V w)"]
      good_write_rows [OF assms(1)] assms(2) by blast
qed

text \<open>
  C5: The model is paid at most once for each attempt to make a task pending. In any interleaving
  of requests, deliveries and sweeps, the calls to the model made for a task are at most the
  attempts to store it or to reset it to pending, plus one if it was pending at the start;
  and every call to the model is made by a delivery, for the task its message names.
\<close>

theorem paid_per_chance:
  assumes "gorm_laws E V"
    and "interleaved E (map (process_prog L F mk cfg b) ps) w tr qs u"
  shows "paid_calls L i ps tr \<le> waiting i (rows V w) + count (chance i) tr \<and>
         (\<forall>x \<in> set tr. if llm_event (snd x) then \<exists>j. for_task L j (ps ! fst x) else True)"
proof
  let ?ps = "map (process_prog L F mk cfg b) ps"
  have good: "list_all (only good_write) ?ps" by (simp add: list_all_iff process_good)
  have bound: "list_all (\<lambda>x. fst x < length ps) tr" using interleaved_bound [OF assms(2)] by simp
  have each: "length (filter llm_event (events_of k tr)) \<le> length (filter (claim_won i) (events_of k tr))"
    if "k < length ps" "for_task L i (ps ! k)" for k
    using pays_le_claims [of i "[]", OF interleaved_always [OF assms(2), of k]] program_pays that by simp
  have "paid_calls L i ps tr =
      (\<Sum>k<length ps. if for_task L i (ps ! k) then length (filter llm_event (events_of k tr)) else 0)"
    unfolding paid_calls_def by (rule count_by_process [OF bound])
  also have "\<dots> \<le> (\<Sum>k<length ps. if True then length (filter (claim_won i) (events_of k tr)) else 0)"
    using each by (intro sum_mono) simp
  also have "\<dots> = count (claim_won i) tr"
    using count_by_process [OF bound, of "\<lambda>_. True"] by (simp add: count_def)
  also have "\<dots> \<le> waiting i (rows V w) + count (chance i) tr"
    using claims_budget [OF assms(2,1) good, of i] by simp
  finally show "paid_calls L i ps tr \<le> waiting i (rows V w) + count (chance i) tr" .
  show "\<forall>x \<in> set tr. if llm_event (snd x) then \<exists>j. for_task L j (ps ! fst x) else True"
  proof
    fix x assume x: "x \<in> set tr"
    then have k: "fst x < length ps" "snd x \<in> set (events_of (fst x) tr)"
      using bound by (auto simp: list_all_iff events_of_def)
    show "if llm_event (snd x) then \<exists>j. for_task L j (ps ! fst x) else True"
      using interleaved_only [OF assms(2), of "fst x" "\<lambda>ev. \<not> llm_event ev"] k
      by (cases "\<exists>j. for_task L j (ps ! fst x)") (auto simp: list_all_iff process_unpaid)
  qed
qed

theorem paid_per_chance_witness:
  "\<exists>tr qs u. interleaved mem_env (map sample_process race) race_start tr qs u \<and>
     paid_calls mem_lib sample_id race tr = 1 \<and> count (chance sample_id) tr = 1 \<and>
     paid_calls mem_lib sample_id race tr
       \<le> waiting sample_id (rows mem_view race_start) + count (chance sample_id) tr"
proof (rule race_parts, goal_cases)
  case (1 tr qs v tr' rs u)
  from 1(1,6,7) paid_per_chance [OF mem_gorm_laws 1(1), of sample_id] show ?case by blast
qed

theorem rows_stay_ok_witness:
  "\<exists>tr qs u. interleaved mem_env (map sample_process race) race_start tr qs u \<and>
     race_status u = Some TaskStatusCompleted \<and>
     rows_ok (rows mem_view race_start) \<and> rows_ok (rows mem_view u)"
proof (rule race_parts, goal_cases)
  case (1 tr qs v tr' rs u)
  have "t = sample_task TaskStatusProcessing" if "mem_rows race_start i = Some t" for i t
    using that by (auto simp: race_start_def mem_with_def mem_rows_def clean_def split: if_splits)
  then have ok: "rows_ok (rows mem_view race_start)"
    by (fastforce simp: rows_ok_def row_ok_def sample_task_def)
  from 1(1,5) ok rows_stay_ok [OF mem_gorm_laws ok 1(1)] show ?case by blast
qed

text \<open>
  C17: Two sweeps at the same time pay for a completed task again. With the default
  configuration, no failing call and a single stranded task, there is an interleaving of two
  sweeps and the deliveries of the messages they published in which the first message is
  handled, the model is paid and the task is completed; then the other sweep, which still
  holds its old copy of the row, sets the completed task back to pending and publishes a
  message with a new identifier, and the model is paid for the task again. Neither the
  duplicate guard nor the conditional claim prevents it.
\<close>

theorem racing_sweeps_pay_twice:
  "\<exists>tr qs v tr' rs u.
     interleaved mem_env (map sample_process race) race_start tr qs v \<and>
     interleaved mem_env qs v tr' rs u \<and> list_all returned rs \<and>
     published tr @ published tr' = race_messages \<and>
     race_status v = Some TaskStatusCompleted \<and>
     paid_calls mem_lib sample_id race tr = 1 \<and> paid_calls mem_lib sample_id race tr' = 1"
  by (rule race_parts) blast

end
