(* ===== verification/Cache_Race.thy ===== *)
theory Cache_Race
  imports System_Interleaving
begin

text \<open>
  The cache under concurrency. One use case after the other keeps the cache in step with the
  table (theory \<open>Service_Cache\<close>); \<^verbatim>\<open>Get\<close> and \<^verbatim>\<open>ApplySummary\<close>, however, read the row
  and write the entry in two calls, and another process may change the row in between.
\<close>

section \<open>A deletion between the read and the write\<close>

text \<open>
  A worker completes a task and has read the row back to refresh the cache, when a client
  deletes the task; then the worker writes the entry. No call fails.
\<close>

definition delete_request :: request where
  "delete_request = sample_request ''DELETE'' (''/api/v1/tasks/'' @ uuid_String sample_id)"

definition get_request :: request where
  "get_request = sample_request ''GET'' (''/api/v1/tasks/'' @ uuid_String sample_id)"

definition delete_race :: "process list" where
  "delete_race = [HandleDelivery sample_delivery, ServeRequest delete_request]"

definition before_delete :: "(nat \<times> nat) list" where "before_delete = [(0, 7), (1, 9)]"
definition after_delete :: "(nat \<times> nat) list" where "after_delete = [(0, 2)]"

text \<open>The statements and cache writes of a trace, and whether they succeeded.\<close>

fun effect_of :: "event \<Rightarrow> (string \<times> bool) option" where
  "effect_of (EExec (Updates c as) r) = Some (''update'', \<not> isl r)"
| "effect_of (EExec (Delete c) r) = Some (''delete'', \<not> isl r)"
| "effect_of (EFirst c r) = Some (''read'', \<not> isl r)"
| "effect_of (ERedis (Set k v ttl) r) = Some (''cache'', r = None)"
| "effect_of (ERedis (Del k) r) = Some (''drop'', r = None)"
| "effect_of _ = None"

definition effects :: "(nat \<times> event) list \<Rightarrow> (nat \<times> string \<times> bool) list" where
  "effects tr = List.map_filter (\<lambda>(k, ev). map_option (Pair k) (effect_of ev)) tr"

definition shows_task :: "uuid \<Rightarrow> ctx option \<Rightarrow> bool" where
  "shows_task i r =
     (case r of
        None \<Rightarrow> False
      | Some c \<Rightarrow> cx_status c = 200 \<and>
          (case cx_body c of
             None \<Rightarrow> False
           | Some b \<Rightarrow> (case unmarshal_task mem_lib b of Inl e \<Rightarrow> False | Inr t \<Rightarrow> ID t = i)))"

lemma delete_race_run:
  "case run_turns mem_env before_delete (map sample_process delete_race)
          (mem_with [sample_task TaskStatusPending]) of (tr, qs, v) \<Rightarrow>
     (case run_turns mem_env after_delete qs v of (tr', rs, u) \<Rightarrow>
        list_all returned rs \<and> race_status u = None \<and>
        effects tr = [(0, ''update'', True), (0, ''drop'', True), (0, ''update'', True),
          (0, ''read'', True), (1, ''delete'', True), (1, ''drop'', True)] \<and>
        effects tr' = [(0, ''cache'', True)] \<and>
        shows_task sample_id (fst (run mem_env (serve sample_fiber False sample_app get_request) u)))"
  by code_simp

section \<open>Properties\<close>

text \<open>
  C18: A deleted task can still be served. There is an interleaving, in which no call fails,
  of a worker that completes a task and a client that deletes it: the worker reads the row
  back, the deletion removes the row and the cache entry, the worker writes the entry of the
  row it read. Both are then done, the row is gone, and a request for the task is answered
  from the cache with status 200 and the deleted task.
\<close>

theorem deleted_task_still_served:
  "\<exists>tr qs v tr' rs u.
     interleaved mem_env (map sample_process delete_race) (mem_with [sample_task TaskStatusPending]) tr qs v \<and>
     interleaved mem_env qs v tr' rs u \<and> list_all returned rs \<and> race_status u = None \<and>
     effects (tr @ tr') = [(0, ''update'', True), (0, ''drop'', True), (0, ''update'', True),
       (0, ''read'', True), (1, ''delete'', True), (1, ''drop'', True), (0, ''cache'', True)] \<and>
     shows_task sample_id (fst (run mem_env (serve sample_fiber False sample_app get_request) u))"
proof -
  let ?w = "mem_with [sample_task TaskStatusPending]"
  obtain tr qs v where 1: "run_turns mem_env before_delete (map sample_process delete_race) ?w = (tr, qs, v)"
    by (cases "run_turns mem_env before_delete (map sample_process delete_race) ?w") auto
  obtain tr' rs u where 2: "run_turns mem_env after_delete qs v = (tr', rs, u)"
    by (cases "run_turns mem_env after_delete qs v") auto
  have i: "interleaved mem_env (map sample_process delete_race) ?w tr qs v"
    by (intro run_turns_interleaved [OF 1]) (simp add: before_delete_def delete_race_def)
  have "length qs = 2" using interleaved_length [OF i] by (simp add: delete_race_def)
  then have j: "interleaved mem_env qs v tr' rs u"
    by (intro run_turns_interleaved [OF 2]) (simp add: after_delete_def)
  have e: "effects (tr @ tr') = effects tr @ effects tr'" by (simp add: effects_def map_filter_def)
  from delete_race_run i j e show ?thesis
    by (intro exI [of _ tr] exI [of _ qs] exI [of _ v] exI [of _ tr'] exI [of _ rs] exI [of _ u])
       (simp add: 1 2)
qed

end
