(* ===== verification/Task_Lifecycle.thy ===== *)
theory Task_Lifecycle
  imports Service_Cache Stale_Reconciler
begin

text \<open>
  The life of a task across the components: it is created and its message published, or the
  message is lost and a sweep publishes another one; the message is delivered to the worker,
  and the task is completed. The statements say which calls have to succeed for that.
\<close>

section \<open>A delivery that goes well\<close>

text \<open>
  The calls that must succeed: the statements on the table, and the model. Redis and the
  reads may fail.
\<close>

fun answered :: "event \<Rightarrow> bool" where
  "answered (EExec s r) \<longleftrightarrow> \<not> isl r"
| "answered (EGenerate g r) \<longleftrightarrow> (case r of Inl e \<Rightarrow> False | Inr choices \<Rightarrow> choices \<noteq> [])"
| "answered _ \<longleftrightarrow> True"

text \<open>An event without a marker is let through, also when Redis does not answer.\<close>

lemma Claim_unmarked:
  assumes "redis_laws E V" "kv V w (dedupe_key ev) = None" "run E (Dedupe_Claim L d ev) w = (first, w')"
  shows "first"
proof (cases "ev = ''''")
  case True
  with assms(3) show ?thesis by (simp add: Dedupe_Claim_def)
next
  case False
  obtain t u where u: "on_now E w = (t, u)" by fastforce
  have "answers E w (ENow t) u" using u by simp
  then obtain m where m: "m \<subseteq>\<^sub>m kv V w" "kv_rel m (ENow t) (kv V u)"
    using redis_rel [OF assms(1)] by blast
  then have n: "kv V u (dedupe_key ev) = None"
    using kv_rel_frame [of "ENow t" m] map_le_None assms(2) by fastforce
  obtain x v y where y: "on_setnx E (dedupe_key ev) v (dd_ttl d) u = (x, y)" "first = (case x of Inl e \<Rightarrow> True | Inr b \<Rightarrow> b)"
    using assms(3) u False by (auto simp: Dedupe_Claim_def split: prod.splits sum.splits)
  show ?thesis
  proof (cases x)
    case (Inr b)
    have "answers E u (ESetNX (dedupe_key ev) v (dd_ttl d) x) y" using y by simp
    then obtain m' where m': "m' \<subseteq>\<^sub>m kv V u" "kv_rel m' (ESetNX (dedupe_key ev) v (dd_ttl d) x) (kv V y)"
      using redis_rel [OF assms(1)] by blast
    then have "b = (m' (dedupe_key ev) = None)" by (simp add: kv_rel_def Inr)
    with map_le_None [OF m'(1) n] y(2) Inr show ?thesis by simp
  qed (use y in simp)
qed

text \<open>The calls that succeed decide the results.\<close>

fun exec_ok :: "event \<Rightarrow> bool" where
  "exec_ok (EExec s r) \<longleftrightarrow> \<not> isl r"
| "exec_ok _ \<longleftrightarrow> True"

lemma answered_exec: "answered ev \<Longrightarrow> exec_ok ev"
  by (cases ev rule: exec_ok.cases) simp_all

lemma BeginProcessing_exec:
  assumes "list_all exec_ok (log E (TaskService_BeginProcessing (production_service b) i) w)"
    and "run E (TaskService_BeginProcessing (production_service b) i) w = (x, w')"
  shows "\<not> isl x"
  using assms
  by (auto simp: TaskService_BeginProcessing_def taskRepository_MarkProcessing_def
      split: prod.splits sum.splits if_splits)

lemma UpdateStatus_exec:
  assumes "gorm_laws E V" "store V w i \<noteq> None"
    and "list_all exec_ok (log E (taskRepository_UpdateStatus i st sm) w)"
    and "run E (taskRepository_UpdateStatus i st sm) w = (x, w')"
  shows "x = None"
proof -
  have "x = None \<or> x = Some ErrNotFound"
    using assms(3,4) by (auto simp: taskRepository_UpdateStatus_def Let_def
        split: prod.splits sum.splits if_splits)
  moreover have "x \<noteq> Some ErrNotFound"
    using gorm_store.set_status [OF assms(1), of i st sm w x w'] assms(2,4) by auto
  ultimately show ?thesis by simp
qed

lemma ApplySummary_exec:
  assumes "gorm_laws E V" "store V w i \<noteq> None"
    and "list_all exec_ok (log E (TaskService_ApplySummary L (production_service b) i sm) w)"
    and "run E (TaskService_ApplySummary L (production_service b) i sm) w = (x, w')"
  shows "x = None"
proof -
  obtain y u where y: "run E (taskRepository_UpdateStatus i TaskStatusCompleted sm) w = (y, u)" by fastforce
  have "list_all exec_ok (log E (taskRepository_UpdateStatus i TaskStatusCompleted sm) w)"
    using assms(3) y by (simp add: TaskService_ApplySummary_def)
  with UpdateStatus_exec [OF assms(1,2) _ y] assms(4) y show ?thesis
    by (auto simp: TaskService_ApplySummary_def split: prod.splits sum.splits)
qed

lemma MarkPending_exec:
  assumes "gorm_laws E V" "store V w i \<noteq> None"
    and "list_all exec_ok (log E (TaskService_MarkPending (production_service b) i) w)"
    and "run E (TaskService_MarkPending (production_service b) i) w = (x, w')"
  shows "x = None"
proof -
  obtain y u where y: "run E (taskRepository_UpdateStatus i TaskStatusPending []) w = (y, u)" by fastforce
  have "list_all exec_ok (log E (taskRepository_UpdateStatus i TaskStatusPending []) w)"
    using assms(3) y by (simp add: TaskService_MarkPending_def)
  with UpdateStatus_exec [OF assms(1,2) _ y] assms(4) y show ?thesis
    by (auto simp: TaskService_MarkPending_def split: prod.splits)
qed

lemma Summarize_answered:
  assumes "list_all answered (log E (client_Summarize c text) w)"
    and "run E (client_Summarize c text) w = (x, w')"
  shows "\<not> isl x"
  using assms
  by (auto simp: client_Summarize_def client_Complete_def split: prod.splits sum.splits list.splits if_splits)

text \<open>The handler gets to the model with the task claimed, when the claim's statement succeeds.\<close>

lemma Handle_claims:
  assumes "gorm_laws E V" "redis_laws E V" "message_of L body = Some (ev, p)"
    and t: "store V w (pl_TaskID p) = Some t" "Status t = TaskStatusPending"
    and "kv V w (dedupe_key ev) = None"
    and "run E (TaskSummarizer_Handle L (production_worker b c (Some d)) body) w = (r, w')"
    and ok: "list_all exec_ok (log E (TaskSummarizer_Handle L (production_worker b c (Some d)) body) w)"
  obtains v where
    "store V v = (store V w)(pl_TaskID p \<mapsto> t\<lparr>Status := TaskStatusProcessing\<rparr>)"
    "run E (Summarizer_summarize L (production_worker b c (Some d)) ev p) v = (r, w')"
    "set (log E (Summarizer_summarize L (production_worker b c (Some d)) ev p) v) \<subseteq>
       set (log E (TaskSummarizer_Handle L (production_worker b c (Some d)) body) w)"
proof -
  let ?i = "pl_TaskID p" and ?svc = "production_service b"
  obtain first u where u: "run E (Dedupe_Claim L d ev) w = (first, u)" by fastforce
  have f: "first" by (rule Claim_unmarked [OF assms(2,6) u])
  have su: "store V u = store V w" by (rule paid_worker.dedupe_store(1) [OF assms(1) u])
  obtain x v where x: "run E (TaskService_BeginProcessing ?svc ?i) u = (x, v)" by fastforce
  note parts = paid_worker.Handle_parts [OF assms(3)] Summarizer_process_def
  have "list_all exec_ok (log E (TaskService_BeginProcessing ?svc ?i) u)"
    using ok u f x by (simp add: parts)
  with x obtain cl where cl: "x = Inr cl" using BeginProcessing_exec by (cases x) fastforce+
  with stack.BeginProcessing_claims [OF assms(1) x [unfolded cl]] t su
  have won: "cl" and sv: "store V v = (store V w)(?i \<mapsto> t\<lparr>Status := TaskStatusProcessing\<rparr>)"
    by (simp_all add: claim_abs_def)
  from sv show ?thesis
    by (rule that) (use assms(7) u f x cl won in \<open>auto simp: parts\<close>)
qed

lemma Handle_completes:
  assumes "gorm_laws E V" "redis_laws E V" "message_of L body = Some (ev, p)"
    and t: "store V w (pl_TaskID p) = Some t" "Status t = TaskStatusPending"
    and "kv V w (dedupe_key ev) = None"
    and "run E (TaskSummarizer_Handle L (production_worker b c (Some d)) body) w = (r, w')"
    and ok: "list_all answered (log E (TaskSummarizer_Handle L (production_worker b c (Some d)) body) w)"
  shows "r = None \<and> completes E (client_iface c) p (store V w) (store V w')"
proof -
  let ?i = "pl_TaskID p" and ?svc = "production_service b"
  have "list_all exec_ok (log E (TaskSummarizer_Handle L (production_worker b c (Some d)) body) w)"
    using ok by (auto simp: list_all_iff dest: answered_exec)
  from Handle_claims [OF assms(1-7) this] obtain v
    where sv: "store V v = (store V w)(?i \<mapsto> t\<lparr>Status := TaskStatusProcessing\<rparr>)"
    and rv: "run E (Summarizer_summarize L (production_worker b c (Some d)) ev p) v = (r, w')"
    and sub: "set (log E (Summarizer_summarize L (production_worker b c (Some d)) ev p) v) \<subseteq>
      set (log E (TaskSummarizer_Handle L (production_worker b c (Some d)) body) w)" .
  have lv: "list_all answered (log E (Summarizer_summarize L (production_worker b c (Some d)) ev p) v)"
    using ok sub by (auto simp: list_all_iff)
  obtain s y where s: "run E (client_Summarize c (summary_text p)) v = (s, y)" by fastforce
  have "list_all answered (log E (client_Summarize c (summary_text p)) v)"
    using lv s by (simp add: Summarizer_summarize_def)
  with s obtain sm where sm: "s = Inr sm" using Summarize_answered by (cases s) fastforce+
  have sy: "store V y = store V v"
    using paid_worker.llm_store [OF assms(1), of c "summary_text p" v s y] s by simp
  obtain z q where z: "run E (TaskService_ApplySummary L ?svc ?i sm) y = (z, q)" by fastforce
  have "list_all exec_ok (log E (TaskService_ApplySummary L ?svc ?i sm) y)"
    using lv s sm z by (auto simp: Summarizer_summarize_def list_all_iff dest: answered_exec)
  with z have zn: "z = None" using ApplySummary_exec [OF assms(1) _ _ z] sy sv by simp
  have r: "r = None" "w' = q"
    using rv s sm z zn by (simp_all add: Summarizer_summarize_def)
  from stack.ApplySummary_store [OF assms(1) z [unfolded zn]] sy sv r
  have "store V w' = (store V w)(?i \<mapsto> t\<lparr>Status := TaskStatusCompleted,
      Summary := (if sm = [] then Summary t else sm)\<rparr>)" by auto
  with r t s sm show ?thesis unfolding completes_def by auto
qed

section \<open>The messages of a new task\<close>

fun carries :: "bytes \<Rightarrow> event \<Rightarrow> bool" where
  "carries body (EAmqp (PublishConfirm x key m) r) \<longleftrightarrow> p_Body m = body"
| "carries body _ \<longleftrightarrow> True"

lemma Publish_carries: "only (carries body) (Broker_Publish b key body)"
  by (simp add: Broker_Publish_def split: option.split sum.split)

lemma published_of: "EAmqp (PublishConfirm x key m) r \<in> set (log E (Broker_Publish b key' body) w) \<Longrightarrow>
  p_Body m = body"
  by (drule only_log [OF Publish_carries]) simp

lemma not_published_by_New: "EAmqp c r \<notin> set (log E (event_New L key m) w)"
  by (rule notI, drule only_log [OF event_New_calls]) simp

text \<open>The repository's insertion is the only part of \<^verbatim>\<open>Create\<close> that changes the row.\<close>

lemma repo_Create_id:
  assumes "gorm_laws E V" "clock_laws E V" "run E (taskRepository_Create z) w = (Inr t, u)"
    and "ID z = uuid_Nil" "Status z = TaskStatusPending"
  shows "uuid_wf (ID t)"
proof -
  obtain i v where i: "on_uuid E w = (i, v)" by fastforce
  have "answers E w (EUUID i) v" using i by simp
  from clock_rel [OF assms(2) this] have wf: "uuid_wf i" by simp
  have "on_create E (z\<lparr>ID := i\<rparr>) v = (Inr t, u)"
    using assms(3-5) i by (auto simp: taskRepository_Create_def BeforeCreate_def split: prod.splits sum.splits)
  then have "answers E v (ECreate (z\<lparr>ID := i\<rparr>) (Inr t)) u" by simp
  from gorm_rel [OF assms(1) this] obtain ts where "t = stamp ts (z\<lparr>ID := i\<rparr>)" by auto
  with wf show ?thesis by (simp add: stamp_def)
qed

lemma repo_Create_no_amqp: "EAmqp c r \<notin> set (log E (taskRepository_Create z) w)"
  by (auto simp: taskRepository_Create_def BeforeCreate_def split: prod.splits sum.splits)

lemma Create_message:
  assumes "gorm_laws E V" "clock_laws E V"
    and "run E (TaskService_Create L (production_service b) inp) w = (Inr t, w')"
    and "EAmqp (PublishConfirm x key m) r \<in> set (log E (TaskService_Create L (production_service b) inp) w)"
  shows "uuid_wf (ID t) \<and>
         (\<exists>y z. run E (event_New L RoutingTaskCreated (marshal_created (created_payload_of t))) y =
                  (Inr (p_Body m), z))"
proof -
  have v: "CreateTaskInput_validate inp = None"
    using assms(3) by (auto simp: TaskService_Create_def split: option.splits)
  let ?t = "zero_task\<lparr>Title := in_Title inp, Description := in_Description inp,
                         Status := TaskStatusPending\<rparr>"
  let ?new = "event_New L RoutingTaskCreated (marshal_created (created_payload_of t))"
  obtain u where u: "run E (taskRepository_Create ?t) w = (Inr t, u)"
    using assms(3) v by (auto simp: TaskService_Create_def split: prod.splits sum.splits)
  have wf: "uuid_wf (ID t)"
    by (rule repo_Create_id [OF assms(1,2) u]) (simp_all add: zero_task_def)
  obtain n z where n: "run E ?new u = (n, z)" by fastforce
  obtain body where body: "n = Inr body"
    and "EAmqp (PublishConfirm x key m) r \<in> set (log E (Broker_Publish b RoutingTaskCreated body) z)"
    using assms(4) v u n
    by (cases n) (simp_all add: TaskService_Create_def repo_Create_no_amqp not_published_by_New)
  then have "p_Body m = body" by (simp add: published_of)
  with wf n body show ?thesis by blast
qed

text \<open>The bodies handed to the broker.\<close>

fun body_of :: "event \<Rightarrow> bytes option" where
  "body_of (EAmqp (PublishConfirm x key m) r) = Some (p_Body m)"
| "body_of _ = None"

primrec published :: "event list \<Rightarrow> bytes list" where
  "published [] = []"
| "published (ev # evs) =
     (case body_of ev of None \<Rightarrow> published evs | Some body \<Rightarrow> body # published evs)"

lemma body_ofD: "body_of ev = Some body \<Longrightarrow>
  \<exists>x key m r. ev = EAmqp (PublishConfirm x key m) r \<and> p_Body m = body"
  by (induction ev rule: body_of.induct) simp_all

lemma publishedD: "body \<in> set (published evs) \<Longrightarrow>
  \<exists>x key m r. EAmqp (PublishConfirm x key m) r \<in> set evs \<and> p_Body m = body"
proof (induction evs)
  case (Cons ev evs)
  then consider "body_of ev = Some body" | "body \<in> set (published evs)"
    by (auto split: option.splits)
  then show ?case
  proof cases
    case 1
    from body_ofD [OF this] show ?thesis by auto
  next
    case 2
    from Cons.IH [OF this] show ?thesis by auto
  qed
qed simp

text \<open>
  A delivery of the body completes the task, if its row is still the one of state \<open>w1\<close>, its
  event has not been seen, and the calls that matter succeed.
\<close>

definition completed_by ::
  "lib \<Rightarrow> 'w env \<Rightarrow> 'w view \<Rightarrow> task_summarizer \<Rightarrow> client \<Rightarrow> task \<Rightarrow> 'w \<Rightarrow> bytes \<Rightarrow> bool" where
  "completed_by L E V W c t w1 body \<longleftrightarrow>
     (\<exists>ev. message_of L body = Some (ev, created_payload_of t) \<and>
        (\<forall>w2 r w3.
           store V w2 (ID t) = store V w1 (ID t) \<and> kv V w2 (dedupe_key ev) = None \<and>
           run E (TaskSummarizer_Handle L W body) w2 = (r, w3) \<and>
           list_all answered (log E (TaskSummarizer_Handle L W body) w2) \<longrightarrow>
           r = None \<and> completes E (client_iface c) (created_payload_of t) (store V w2) (store V w3)))"

lemma completed_byI:
  assumes "gorm_laws E V" "redis_laws E V" "clock_laws E V" "lib_ok L" "uuid_wf (ID t)"
    and "store V w1 (ID t) = Some s" "Status s = TaskStatusPending"
    and "run E (event_New L RoutingTaskCreated (marshal_created (created_payload_of t))) y = (Inr body, z)"
  shows "completed_by L E V (production_worker b c (Some d)) c t w1 body"
proof -
  have i: "pl_TaskID (created_payload_of t) = ID t" by (simp add: created_payload_of_def)
  from event_New_decodes [OF assms(4,3) _ assms(8)] assms(5) i obtain env
    where "unmarshal_envelope L body = Inr env" "env_Type env = RoutingTaskCreated"
      "unmarshal_created L (payload_bytes env) = Inr (created_payload_of t)" by auto
  then have m: "message_of L body = Some (env_ID env, created_payload_of t)" by (simp add: message_of_def)
  have "r = None \<and> completes E (client_iface c) (created_payload_of t) (store V w2) (store V w3)"
    if "store V w2 (ID t) = store V w1 (ID t)" "kv V w2 (dedupe_key (env_ID env)) = None"
      "run E (TaskSummarizer_Handle L (production_worker b c (Some d)) body) w2 = (r, w3)"
      "list_all answered (log E (TaskSummarizer_Handle L (production_worker b c (Some d)) body) w2)"
    for w2 r w3
    using Handle_completes [OF assms(1,2) m _ assms(7) that(2-4)] that(1) assms(6) i by simp
  with m show ?thesis unfolding completed_by_def by blast
qed

section \<open>The sweep\<close>

text \<open>If the page holds as many rows as are stale, it holds them all.\<close>

lemma stale_page_full:
  assumes "stale_page pb qb n m ts" "card {t \<in> ran m. is_stale pb qb t} \<le> length ts"
  shows "set ts = {t \<in> ran m. is_stale pb qb t}"
    and "card {t \<in> ran m. is_stale pb qb t} = length ts"
proof -
  obtain all where all: "distinct all" "set all = {t \<in> ran m. is_stale pb qb t}" and ts: "ts = take n all"
    using assms(1) by (auto simp: stale_page_def)
  have c: "card {t \<in> ran m. is_stale pb qb t} = length all"
    using distinct_card [OF all(1)] all(2) by simp
  with assms(2) ts have "ts = all" by simp
  with all(2) c show "set ts = {t \<in> ran m. is_stale pb qb t}"
    and "card {t \<in> ran m. is_stale pb qb t} = length ts" by simp_all
qed

lemma stale_status: "is_stale pb qb t \<Longrightarrow>
  (Status t = TaskStatusPending \<or> Status t = TaskStatusProcessing)"
  by (auto simp: is_stale_def)

text \<open>A confirmed message of a pending row completes the task.\<close>

lemma sent_completes:
  assumes "gorm_laws E V" "redis_laws E V" "clock_laws E V" "lib_ok L" "uuid_wf (ID t)"
    and "store V w1 (ID t) = Some s" "Status s = TaskStatusPending"
    and "sent_created L E t evs"
  shows "\<exists>x p. EAmqp (PublishConfirm x RoutingTaskCreated p) None \<in> set evs \<and>
           completed_by L E V (production_worker b c (Some d)) c t w1 (p_Body p)"
proof -
  obtain y body z where new: "run E (event_New L RoutingTaskCreated (marshal_created (created_payload_of t))) y =
      (Inr body, z)" and c: "confirmed RoutingTaskCreated body evs"
    using assms(8) unfolding sent_created_def by blast
  from completed_byI [OF assms(1-7) new] c show ?thesis unfolding confirmed_def by blast
qed

section \<open>Properties\<close>

text \<open>
  C7: A created task is completed by its message. Suppose \<^verbatim>\<open>Create\<close> returned a task and
  handed a message to the broker, whatever the broker answered. The body of that message
  is a task.created message for exactly this task; and when it is delivered to the worker
  at any later time, with the row as \<^verbatim>\<open>Create\<close> left it and the event not seen before,
  and the claim, the model and the update of the row succeed, the handler reports no error
  and the task is completed with the model's summary. Redis may fail in all of this.
\<close>

theorem created_task_is_completed:
  assumes "gorm_laws E V" and "redis_laws E V" and "clock_laws E V" and "lib_ok L"
    and "run E (TaskService_Create L (production_service b) inp) w = (Inr t, w1)"
    and "EAmqp (PublishConfirm x key m) r \<in> set (log E (TaskService_Create L (production_service b) inp) w)"
  shows "completed_by L E V (production_worker b' c (Some d)) c t w1 (p_Body m)"
proof -
  from Create_message [OF assms(1,3,5,6)] obtain y z where wf: "uuid_wf (ID t)"
    and new: "run E (event_New L RoutingTaskCreated (marshal_created (created_payload_of t))) y =
      (Inr (p_Body m), z)" by blast
  from stack.Create_store [OF assms(1,5)]
  have "store V w1 (ID t) = Some (erase t)" "Status (erase t) = TaskStatusPending" by simp_all
  from completed_byI [OF assms(1-4) wf this new] show ?thesis .
qed

definition sample_input :: create_input where
  "sample_input = \<lparr>in_Title = ''Write docs'', in_Description = ''the API''\<rparr>"

definition sample_create :: "(goerror + task) prog" where
  "sample_create = TaskService_Create mem_lib (production_service sample_broker) sample_input"

definition sample_worker :: task_summarizer where
  "sample_worker = production_worker sample_broker sample_client (Some \<lparr>dd_ttl = 60\<rparr>)"

definition sample_delivered :: "bytes \<Rightarrow> mem \<Rightarrow> goerror option \<times> mem" where
  "sample_delivered body w = run mem_env (TaskSummarizer_Handle mem_lib sample_worker body) w"

theorem created_task_is_completed_witness:
  "\<exists>t w1 body w2. run mem_env sample_create mem_empty = (Inr t, w1) \<and>
     completed_by mem_lib mem_env mem_view sample_worker sample_client t w1 body \<and>
     sample_delivered body w1 = (None, w2) \<and>
     map_option Status (mem_rows w2 (ID t)) = Some TaskStatusCompleted"
proof -
  let ?x = "run mem_env sample_create mem_empty" and ?l = "log mem_env sample_create mem_empty"
  let ?y = "sample_delivered (hd (published ?l)) (snd ?x)"
  have "\<not> isl (fst ?x)" by code_simp
  then have t: "fst ?x = Inr (projr (fst ?x))" by simp
  have "published ?l \<noteq> []" by code_simp
  from publishedD [OF hd_in_set [OF this]] obtain x key m r
    where m: "EAmqp (PublishConfirm x key m) r \<in> set ?l" "p_Body m = hd (published ?l)" by blast
  have "completed_by mem_lib mem_env mem_view sample_worker sample_client
      (projr (fst ?x)) (snd ?x) (p_Body m)"
    unfolding sample_worker_def
    by (rule created_task_is_completed [OF mem_gorm_laws mem_redis_laws mem_clock_laws mem_lib_ok
          run_fst [OF t, unfolded sample_create_def] m(1) [unfolded sample_create_def],
          folded sample_create_def])
  moreover have "fst ?y = None" by code_simp
  moreover have "map_option Status (mem_rows (snd ?y) (ID (projr (fst ?x)))) = Some TaskStatusCompleted"
    by code_simp
  ultimately show ?thesis unfolding m(2) using run_fst [OF t] prod.collapse [of ?y] by metis
qed

text \<open>
  C8: A stranded task is completed by the next sweep's message. Suppose a row is stale when a
  sweep of the production reconciler reads the clock, and the sweep reports that it rescued
  as many tasks as were stale. Then the broker confirmed a message, and the delivery of that
  message to the worker at any later time, with the row as the sweep left it, completes the
  task as in the property above: a task whose message was lost, or whose worker died after
  the claim, is not lost.
\<close>

theorem stranded_task_is_completed:
  assumes "gorm_laws E V" and "redis_laws E V" and "clock_laws E V" and "lib_ok L"
    and "ro_now opts = None" and "on_now E w = (now, u)"
    and "pb = now - with_default (5 * minute) (ro_PendingGrace opts)"
    and "qb = now - with_default (10 * minute) (ro_ProcessingTimeout opts)"
    and "rows V w (ID t) = Some t" and "is_stale pb qb t" and "uuid_wf (ID t)"
    and "run E (Reconciler_Sweep (production_reconciler L b opts)) w =
           (Inr (int (card {s \<in> ran (rows V w). is_stale pb qb s})), w1)"
  shows "\<exists>x p. EAmqp (PublishConfirm x RoutingTaskCreated p) None \<in>
                set (log E (Reconciler_Sweep (production_reconciler L b opts)) w) \<and>
              completed_by L E V (production_worker b' c (Some d)) c t w1 (p_Body p)"
proof -
  from production_sweep [OF assms(1,5,6,12), folded assms(7,8)] obtain ts
    where page: "stale_page pb qb (nat (with_default 100 (ro_BatchSize opts))) (rows V w) ts"
    and len: "card {s \<in> ran (rows V w). is_stale pb qb s} \<le> length ts"
    and same: "\<forall>i. store V w1 i = store V w i \<or>
        (\<exists>t \<in> set ts. ID t = i \<and> Status t = TaskStatusProcessing) \<and>
        store V w1 i = to_pending (store V w i)"
    and full: "card {s \<in> ran (rows V w). is_stale pb qb s} = length ts \<longrightarrow>
       (\<forall>t \<in> set ts. sent_created L E t (log E (Reconciler_Sweep (production_reconciler L b opts)) w) \<and>
          (Status t = TaskStatusProcessing \<longrightarrow> store V w1 (ID t) = to_pending (store V w (ID t))))"
    by (elim exE conjE) (rule that, assumption, simp_all)
  note all = stale_page_full [OF page len]
  have tt: "t \<in> set ts" using all(1) assms(9,10) by (auto simp: ran_def)
  with all(2) full have sent: "sent_created L E t (log E (Reconciler_Sweep (production_reconciler L b opts)) w)"
    and reset: "Status t = TaskStatusProcessing \<longrightarrow> store V w1 (ID t) = to_pending (store V w (ID t))"
    by auto
  have row: "store V w (ID t) = Some (erase t)"
    using assms(9) by (simp add: store_def)
  have "\<exists>s. store V w1 (ID t) = Some s \<and> Status s = TaskStatusPending"
    using stale_status [OF assms(10)]
  proof
    assume "Status t = TaskStatusPending"
    with row same [rule_format, of "ID t"] show ?thesis by auto
  next
    assume "Status t = TaskStatusProcessing"
    with reset row show ?thesis by simp
  qed
  then obtain s where "store V w1 (ID t) = Some s" "Status s = TaskStatusPending" by blast
  from sent_completes [OF assms(1-4,11) this sent] show ?thesis .
qed

theorem stranded_task_is_completed_witness:
  "\<exists>x p. EAmqp (PublishConfirm x RoutingTaskCreated p) None \<in>
       set (log mem_env (Reconciler_Sweep (production_reconciler mem_lib sample_broker sample_options))
         (mem_with [sample_task TaskStatusProcessing])) \<and>
     completed_by mem_lib mem_env mem_view sample_worker sample_client (sample_task TaskStatusProcessing)
       (snd (run mem_env (Reconciler_Sweep (production_reconciler mem_lib sample_broker sample_options))
         (mem_with [sample_task TaskStatusProcessing]))) (p_Body p)"
proof -
  let ?t = "sample_task TaskStatusProcessing" and ?w = "mem_with [sample_task TaskStatusProcessing]"
  let ?p = "Reconciler_Sweep (production_reconciler mem_lib sample_broker sample_options)"
  let ?pb = "fst (on_now mem_env ?w) - with_default (5 * minute) (ro_PendingGrace sample_options)"
  let ?qb = "fst (on_now mem_env ?w) - with_default (10 * minute) (ro_ProcessingTimeout sample_options)"
  have id: "ID ?t = sample_id" "uuid_wf (ID ?t)" "ro_now sample_options = None"
    by (simp_all add: sample_task_def sample_id_def mem_uuid_ok sample_options_def)
  have row: "rows mem_view ?w (ID ?t) = Some ?t" by code_simp
  have "mem_all ?w = [?t]" by code_simp
  then have ran: "ran (rows mem_view ?w) = {?t}" using set_mem_all [of ?w] by simp
  have stale: "is_stale ?pb ?qb ?t" by code_simp
  then have "{s \<in> ran (rows mem_view ?w). is_stale ?pb ?qb s} = {?t}"
    unfolding ran by blast
  then have card: "int (card {s \<in> ran (rows mem_view ?w). is_stale ?pb ?qb s}) = 1" by simp
  have "fst (run mem_env ?p ?w) = Inr 1" by code_simp
  then have run: "run mem_env ?p ?w =
      (Inr (int (card {s \<in> ran (rows mem_view ?w). is_stale ?pb ?qb s})), snd (run mem_env ?p ?w))"
    unfolding card by (rule run_fst)
  show ?thesis unfolding sample_worker_def
    by (rule stranded_task_is_completed [OF mem_gorm_laws mem_redis_laws mem_clock_laws mem_lib_ok id(3)
          surjective_pairing refl refl row stale id(2) run])
qed

end
