(* ===== verification/Sweep_Starvation.thy ===== *)
theory Sweep_Starvation
  imports Task_Lifecycle
begin

text \<open>
  What the batch limit of the sweep does to newer tasks. The query takes the oldest stale
  rows first, republishing a pending row leaves it as it was, and a delivery whose model call
  is refused hands its task back with its old creation time; so if there are as many such
  old rows as the batch holds, the same ones fill every batch.
\<close>

section \<open>Who is in front of a task\<close>

text \<open>The pending rows that are older than the task and past the grace period.\<close>

definition in_front :: "'w view \<Rightarrow> int \<Rightarrow> int \<Rightarrow> 'w \<Rightarrow> uuid set" where
  "in_front V grace created w =
     {i. \<exists>t. rows V w i = Some t \<and> Status t = TaskStatusPending \<and>
             CreatedAt t < created \<and> CreatedAt t < clk V w - grace}"

definition crowded_out :: "'w view \<Rightarrow> nat \<Rightarrow> int \<Rightarrow> uuid \<Rightarrow> 'w \<Rightarrow> bool" where
  "crowded_out V batch grace j w \<longleftrightarrow>
     (case rows V w j of
        None \<Rightarrow> False
      | Some r \<Rightarrow> batch \<le> card (in_front V grace (CreatedAt r) w))"

lemma in_front_finite: "table_ok (rows V w) \<Longrightarrow> finite (in_front V grace c w)"
  by (rule finite_subset [of _ "dom (rows V w)"]) (auto simp: in_front_def table_ok_def)

text \<open>Elements that come strictly before a member of a page are in front of it in the page.\<close>

lemma sorted_take_front:
  assumes "sorted (map f xs)" "x \<in> set (take n xs)" "T \<subseteq> set xs" "\<And>y. y \<in> T \<Longrightarrow> f y < f x"
  shows "card T < n"
proof -
  obtain p where p: "p < n" "p < length xs" "xs ! p = x"
    using assms(2) by (auto simp: in_set_conv_nth)
  have "T \<subseteq> set (take p xs)"
  proof
    fix y assume y: "y \<in> T"
    then obtain q where q: "q < length xs" "xs ! q = y" using assms(3) by (auto simp: in_set_conv_nth subset_iff)
    have "q < p"
    proof (rule ccontr)
      assume "\<not> q < p"
      then have "map f xs ! p \<le> map f xs ! q"
        using q(1) by (intro sorted_nth_mono [OF assms(1)]) simp_all
      with p q assms(4) [OF y] show False by simp
    qed
    with q show "y \<in> set (take p xs)" by (auto simp: in_set_conv_nth)
  qed
  then have "card T \<le> card (set (take p xs))" by (rule card_mono [OF finite_set])
  also have "\<dots> \<le> p" using card_length [of "take p xs"] by simp
  finally show ?thesis using p(1) by simp
qed

lemma crowded_not_in_page:
  assumes "table_ok (rows V w)" "crowded_out V batch grace j w"
    and "stale_page pb qb batch (rows V w) ts" "clk V w - grace \<le> pb"
  shows "j \<notin> ID ` set ts"
proof
  assume "j \<in> ID ` set ts"
  obtain all where all: "set all = {t \<in> ran (rows V w). is_stale pb qb t}"
    "sorted (map CreatedAt all)" "ts = take batch all"
    using assms(3) by (auto simp: stale_page_def)
  obtain x where x: "x \<in> set (take batch all)" "ID x = j" using \<open>j \<in> ID ` set ts\<close> all(3) by auto
  then have row: "rows V w j = Some x"
    using all(1) assms(1) by (auto simp: ran_def table_ok_def dest!: in_set_takeD)
  let ?S = "in_front V grace (CreatedAt x) w"
  let ?T = "(the \<circ> rows V w) ` ?S"
  have mem: "\<exists>t. rows V w i = Some t \<and> ID t = i" if "i \<in> ?S" for i
    using that assms(1) by (auto simp: in_front_def table_ok_def)
  have "inj_on (the \<circ> rows V w) ?S" by (rule inj_onI) (metis mem comp_apply option.sel)
  then have "card ?T = card ?S" by (rule card_image)
  moreover have "card ?T < batch"
  proof (rule sorted_take_front [OF all(2) x(1)])
    show "?T \<subseteq> set all"
      using assms(4) unfolding all(1) by (force simp: in_front_def is_stale_def ran_def)
    show "CreatedAt y < CreatedAt x" if "y \<in> ?T" for y using that by (auto simp: in_front_def)
  qed
  ultimately show False using assms(2) row by (simp add: crowded_out_def)
qed

section \<open>What a batch leaves alone\<close>

text \<open>Only rows that the batch holds as processing are written.\<close>

fun resets_one_of :: "uuid set \<Rightarrow> event \<Rightarrow> bool" where
  "resets_one_of S (EExec s r) \<longleftrightarrow>
     (\<exists>i \<in> S. s = Updates (IdIs i) [SetStatus TaskStatusPending])"
| "resets_one_of S ev \<longleftrightarrow> \<not> db_event ev \<and> \<not> find_event ev"

abbreviation processing_ids :: "task list \<Rightarrow> uuid set" where
  "processing_ids ts \<equiv> {ID t |t. t \<in> set ts \<and> Status t = TaskStatusProcessing}"

lemma no_db_resets: "\<not> db_event ev \<Longrightarrow> resets_one_of S ev"
  by (cases ev) simp_all

lemma Republish_resets_one:
  "only (resets_one_of {ID u |u. u = t \<and> Status u = TaskStatusProcessing})
     (TaskService_RepublishCreated L (production_service b) t)"
proof -
  have "only (resets_one_of S) (TaskService_emitCreated L (production_service b) t)" for S
    by (rule only_mono [OF stack.emitCreated_quiet no_db_resets])
  then show ?thesis
    by (auto simp: TaskService_RepublishCreated_def TaskService_MarkPending_def
        taskRepository_UpdateStatus_def Let_def split: sum.split)
qed

lemma resets_mono: "resets_one_of S ev \<Longrightarrow> S \<subseteq> S' \<Longrightarrow> resets_one_of S' ev"
  by (cases ev) auto

lemma republish_all_resets:
  "only (resets_one_of (processing_ids ts)) (republish_all (service_tasks L (production_service b)) ts k)"
proof -
  have "only (resets_one_of S) (republish_all (service_tasks L (production_service b)) ts k)"
    if "processing_ids ts \<subseteq> S" for S
    using that
  proof (induction ts arbitrary: k)
    case (Cons t ts)
    have "only (resets_one_of S) (TaskService_RepublishCreated L (production_service b) t)"
      by (rule only_mono [OF Republish_resets_one], erule resets_mono) (use Cons.prems in auto)
    moreover have "only (resets_one_of S) (republish_all (service_tasks L (production_service b)) ts k)" for k
      using Cons.prems by (intro Cons.IH) auto
    ultimately show ?case by (auto split: option.split)
  qed simp
  then show ?thesis by blast
qed

lemma reset_keeps_row:
  assumes "gorm_laws E V" "answers E w ev w'" "resets_one_of S ev" "i \<notin> S"
  shows "rows V w' i = rows V w i"
proof -
  note rel = gorm_rel [OF assms(1,2)] and ok = gorm_table_ok [OF assms(1), of w]
  show ?thesis
  proof (cases "\<exists>s r. ev = EExec s r")
    case True
    then obtain s r where ev: "ev = EExec s r" by blast
    with assms(3) obtain k where k: "k \<in> S" "s = Updates (IdIs k) [SetStatus TaskStatusPending]" by auto
    have "stmt_effect ts s (rows V w) i = rows V w i" for ts
      using k assms(4) ok by (auto simp: law_simps split: option.split)
    with rel ev show ?thesis by (cases r) auto
  next
    case False
    with assms(3) have "\<not> db_event ev" by (cases ev) simp_all
    with rel show ?thesis by simp
  qed
qed

text \<open>
  One sweep: the page it reads leaves the task out, and the task stays crowded out. Nothing
  the sweep does concerns the rows in front, which are pending.
\<close>

lemma crowd_stays:
  assumes "gorm_laws E V" "crowded_out V batch grace j w" "clk V w \<le> clk V w'"
    and "rows V w' j = rows V w j"
    and "\<And>i t. rows V w i = Some t \<Longrightarrow> Status t = TaskStatusPending \<Longrightarrow>
           \<exists>t'. rows V w' i = Some t' \<and> Status t' = TaskStatusPending \<and> CreatedAt t' = CreatedAt t"
  shows "crowded_out V batch grace j w'"
proof -
  obtain r where r: "rows V w j = Some r" "batch \<le> card (in_front V grace (CreatedAt r) w)"
    using assms(2) by (auto simp: crowded_out_def split: option.splits)
  have "in_front V grace (CreatedAt r) w \<subseteq> in_front V grace (CreatedAt r) w'"
    using assms(3,5) by (fastforce simp: in_front_def)
  then have "card (in_front V grace (CreatedAt r) w) \<le> card (in_front V grace (CreatedAt r) w')"
    by (intro card_mono in_front_finite gorm_table_ok [OF assms(1)])
  with r assms(4) show ?thesis by (simp add: crowded_out_def)
qed

definition leaves_out :: "uuid \<Rightarrow> event \<Rightarrow> bool" where
  "leaves_out j ev \<longleftrightarrow> (\<forall>q ts. ev = EFind q (Inr ts) \<longrightarrow> j \<notin> ID ` set ts)"

lemma no_find_leaves_out: "\<not> find_event ev \<Longrightarrow> leaves_out j ev"
  by (cases ev) (simp_all add: leaves_out_def)

abbreviation batch_of :: "reconciler_options \<Rightarrow> nat" where
  "batch_of opts \<equiv> nat (with_default 100 (ro_BatchSize opts))"

abbreviation grace_of :: "reconciler_options \<Rightarrow> int" where
  "grace_of opts \<equiv> with_default (5 * minute) (ro_PendingGrace opts)"

lemma sweep_parts:
  assumes "ro_now opts = None"
    and "run E (Reconciler_Sweep (production_reconciler L b opts)) w = (x, w')"
  shows "\<exists>now u r v q.
     on_now E w = (now, u) \<and> on_find E q u = (r, v) \<and>
     run E (taskRepository_FindStale (now - grace_of opts)
       (now - with_default (10 * minute) (ro_ProcessingTimeout opts))
       (with_default 100 (ro_BatchSize opts))) u =
       (map_sum (errorf ''find stale tasks'') id r, v) \<and>
     (\<exists>p. run E p v = (x, w') \<and>
        log E (Reconciler_Sweep (production_reconciler L b opts)) w = ENow now # EFind q r # log E p v \<and>
        only (resets_one_of (case r of Inl e \<Rightarrow> {} | Inr ts \<Rightarrow> processing_ids ts)) p)"
proof -
  let ?pb = "\<lambda>now. now - grace_of opts"
  let ?qb = "\<lambda>now. now - with_default (10 * minute) (ro_ProcessingTimeout opts)"
  let ?n = "with_default 100 (ro_BatchSize opts)"
  obtain now u where now: "on_now E w = (now, u)" by fastforce
  have n: "0 < ?n" by (simp add: with_default_pos)
  let ?q = "\<lparr>q_where = Some
              (CondOr (CondAnd (StatusIs TaskStatusPending) (CreatedBefore (?pb now)))
                      (CondAnd (StatusIs TaskStatusProcessing) (UpdatedBefore (?qb now)))),
            q_order = CreatedAsc, q_limit = ?n, q_offset = 0\<rparr>"
  obtain r v where r: "on_find E ?q u = (r, v)" by fastforce
  let ?p = "case r of
      Inl e \<Rightarrow> Return (Inl (errorf ''find stale tasks'' e))
    | Inr ts \<Rightarrow> if length ts = 0 then Return (Inr 0)
               else pbind (republish_all (service_tasks L (production_service b)) ts 0) (\<lambda>n. Return (Inr n))"
  have f: "run E (taskRepository_FindStale (?pb now) (?qb now) ?n) u =
      (map_sum (errorf ''find stale tasks'') id r, v)"
    using n r by (auto simp: taskRepository_FindStale_def Let_def split: sum.split)
  have s: "run E (Reconciler_Sweep (production_reconciler L b opts)) w = run E ?p v \<and>
      log E (Reconciler_Sweep (production_reconciler L b opts)) w = ENow now # EFind ?q r # log E ?p v"
    using n now r
    by (cases r) (simp_all add: Reconciler_Sweep_def production_now [OF assms(1)] TaskService_FindStale_def
        taskRepository_FindStale_def Let_def)
  have "only (resets_one_of (case r of Inl e \<Rightarrow> {} | Inr ts \<Rightarrow> processing_ids ts)) ?p"
    by (auto intro!: only_pbind republish_all_resets split: sum.split)
  with now r f s assms(2) show ?thesis
    by (intro exI [of _ now] exI [of _ u] exI [of _ r] exI [of _ v] exI [of _ ?q] conjI exI [of _ ?p]) auto
qed

lemma sweep_crowded:
  assumes "gorm_laws E V" "clock_laws E V" "ro_now opts = None"
    and c: "crowded_out V (batch_of opts) (grace_of opts) j w"
    and "run E (Reconciler_Sweep (production_reconciler L b opts)) w = (x, w')"
  shows "crowded_out V (batch_of opts) (grace_of opts) j w' \<and> rows V w' j = rows V w j \<and>
         list_all (leaves_out j) (log E (Reconciler_Sweep (production_reconciler L b opts)) w)"
proof -
  obtain now u r v q p where now: "on_now E w = (now, u)" and r: "on_find E q u = (r, v)"
    and f: "run E (taskRepository_FindStale (now - grace_of opts)
       (now - with_default (10 * minute) (ro_ProcessingTimeout opts))
       (with_default 100 (ro_BatchSize opts))) u = (map_sum (errorf ''find stale tasks'') id r, v)"
    and p: "run E p v = (x, w')"
      "log E (Reconciler_Sweep (production_reconciler L b opts)) w = ENow now # EFind q r # log E p v"
      "only (resets_one_of (case r of Inl e \<Rightarrow> {} | Inr ts \<Rightarrow> processing_ids ts)) p"
    using sweep_parts [OF assms(3,5)] by blast
  let ?S = "case r of Inl e \<Rightarrow> {} | Inr ts \<Rightarrow> processing_ids ts"
  have a: "answers E w (ENow now) u" "answers E u (EFind q r) v" using now r by simp_all
  have t: "clk V w \<le> now" "clk V w \<le> clk V u" "clk V u \<le> clk V v"
    using clock_rel [OF assms(2) a(1)] gorm_clock [OF assms(1) a(2)] by simp_all
  have same: "rows V u = rows V w" "rows V v = rows V w"
    using gorm_rel [OF assms(1) a(1)] gorm_rel [OF assms(1) a(2)] by (cases r; simp)+
  have ok: "table_ok (rows V w)" by (rule gorm_table_ok [OF assms(1)])
  have n: "\<not> with_default 100 (ro_BatchSize opts) \<le> 0" using with_default_pos [of 100] by (simp add: not_le)
  have out: "j \<notin> ID ` set ts"
    and snap: "\<And>s. s \<in> set ts \<Longrightarrow> rows V w (ID s) = Some s" if "r = Inr ts" for ts
  proof -
    have pg: "stale_page (now - grace_of opts) (now - with_default (10 * minute) (ro_ProcessingTimeout opts))
        (batch_of opts) (rows V w) ts"
      using gorm_store.stale [OF assms(1), of "now - grace_of opts" _ _ u] f that n same by fastforce
    show "j \<notin> ID ` set ts" by (rule crowded_not_in_page [OF ok c pg]) (use t in simp)
    show "rows V w (ID s) = Some s" if "s \<in> set ts" for s using stale_page_rows [OF ok pg] that by blast
  qed
  have j: "j \<notin> ?S" using out by (cases r) auto
  have pend: "Status t \<noteq> TaskStatusPending" if "i \<in> ?S" "rows V w i = Some t" for i t
  proof (cases r)
    case (Inr ts)
    with that(1) obtain s where "s \<in> set ts" "ID s = i" "Status s = TaskStatusProcessing" by auto
    with snap [OF Inr] that(2) show ?thesis by fastforce
  qed (use that in simp)
  have keep: "rows V w' i = rows V w i" if "i \<notin> ?S" for i
  proof -
    have "(\<lambda>y. rows V y i = rows V v i) w'"
      by (rule run_invariant [OF p(3) _ p(1)]) (use reset_keeps_row [OF assms(1) _ _ that] in auto)
    with same show ?thesis by simp
  qed
  have "clk V w \<le> clk V w'" by (rule run_clock [OF assms(1,5)])
  moreover have "\<exists>t'. rows V w' i = Some t' \<and> Status t' = TaskStatusPending \<and> CreatedAt t' = CreatedAt t"
    if "rows V w i = Some t" "Status t = TaskStatusPending" for i t
  proof -
    have "i \<notin> ?S" using pend that by blast
    from keep [OF this] that show ?thesis by simp
  qed
  ultimately have stays: "crowded_out V (batch_of opts) (grace_of opts) j w' \<and> rows V w' j = rows V w j"
    using crowd_stays [OF assms(1) c _ keep [OF j]] keep [OF j] by simp
  have "leaves_out j ev" if "ev \<in> set (log E p v)" for ev
  proof (rule no_find_leaves_out)
    show "\<not> find_event ev" using only_log [OF p(3) that] by (cases ev) simp_all
  qed
  with stays out p(2) show ?thesis by (auto simp: list_all_iff leaves_out_def)
qed

lemma run_crowded:
  assumes "gorm_laws E V" and "clock_laws E V" and "ro_now opts = None"
    and "crowded_out V (batch_of opts) (grace_of opts) j w"
    and "run E (Reconciler_Run n (production_reconciler L b opts)) w = (d, w')"
  shows "rows V w' j = rows V w j \<and> crowded_out V (batch_of opts) (grace_of opts) j w' \<and>
         list_all (leaves_out j) (log E (Reconciler_Run n (production_reconciler L b opts)) w)"
  using assms(4,5)
proof (induction n arbitrary: w)
  case (Suc n)
  let ?s = "Reconciler_Sweep (production_reconciler L b opts)"
  let ?d = "with_default (1 * minute) (ro_Interval opts)"
  obtain x u where x: "run E ?s w = (x, u)" by fastforce
  obtain c v where c: "on_select E ?d u = (c, v)" by fastforce
  note sw = sweep_crowded [OF assms(1-3) Suc.prems(1) x]
  have "answers E u (ESelect ?d c) v" using c by simp
  then have "rows V v = rows V u" "clk V u \<le> clk V v"
    using gorm_rel [OF assms(1)] gorm_clock [OF assms(1)] by fastforce+
  with crowd_stays [OF assms(1), of "batch_of opts" "grace_of opts" j u v] sw
  have v: "crowded_out V (batch_of opts) (grace_of opts) j v" "rows V v j = rows V w j" by simp_all
  have nf: "leaves_out j (ESelect ?d c)" by (simp add: no_find_leaves_out)
  show ?case
  proof (cases c)
    case True
    with Suc.prems(2) x c sw v nf show ?thesis by simp
  next
    case False
    with Suc.prems(2) x c have "run E (Reconciler_Run n (production_reconciler L b opts)) v = (d, w')" by simp
    from Suc.IH [OF v(1) this] False x c sw v nf show ?thesis by simp
  qed
qed simp

section \<open>A delivery that the model refuses\<close>

text \<open>The handler reads, and updates only the row of its task.\<close>

fun touches :: "uuid \<Rightarrow> event \<Rightarrow> bool" where
  "touches i (EExec s r) \<longleftrightarrow>
     (\<exists>as. s = Updates (IdIs i) as \<or> s = Updates (CondAnd (IdIs i) (StatusIs TaskStatusPending)) as)"
| "touches i (EFirst c r) \<longleftrightarrow> True"
| "touches i ev \<longleftrightarrow> \<not> db_event ev"

lemma no_db_touches: "\<not> db_event ev \<Longrightarrow> touches i ev"
  by (cases ev) simp_all

lemma Handle_touches:
  assumes "message_of L body = Some (ev, p)"
  shows "only (touches (pl_TaskID p)) (TaskSummarizer_Handle L (production_worker b c (Some d)) body)"
proof -
  have llm: "only (touches i) (client_Summarize c x)" for i x
    by (simp add: client_Summarize_def client_Complete_def split: sum.split list.split)
  have hand: "only (touches i) (Summarizer_give_back (production_worker b c (Some d)) ev i err)" for i err
    by (auto simp: Summarizer_give_back_def Dedupe_Release_def TaskService_MarkPending_def
        taskRepository_UpdateStatus_def Let_def split: sum.split option.split)
  have claim: "only (touches i) (Dedupe_Claim L d ev)" for i
    by (rule only_mono [OF Claim_no_db], rule no_db_touches) simp
  have appl: "only (touches i) (TaskService_ApplySummary L (production_service b) i sm)" for i sm
    by (auto simp: TaskService_ApplySummary_def taskRepository_UpdateStatus_def taskRepository_GetByID_def
        TaskService_cacheSet_def Let_def split: sum.split option.split)
  show ?thesis
    unfolding paid_worker.Handle_parts [OF assms] Summarizer_process_def Summarizer_summarize_def
    by (auto simp: TaskService_BeginProcessing_def taskRepository_MarkProcessing_def
        intro!: only_pbind llm hand claim appl split: sum.split option.split)
qed

lemma fold_assign_created: "CreatedAt (fold apply_assign as t) = CreatedAt t"
proof (induction as arbitrary: t)
  case (Cons a as)
  show ?case using Cons.IH [of "apply_assign a t"] by (cases a) simp_all
qed simp

lemma touch_keeps:
  assumes "gorm_laws E V" "answers E w ev w'" "touches i ev"
  shows "if k = i then map_option CreatedAt (rows V w' k) = map_option CreatedAt (rows V w k)
         else rows V w' k = rows V w k"
proof -
  note rel = gorm_rel [OF assms(1,2)] and ok = gorm_table_ok [OF assms(1), of w]
  show ?thesis
  proof (cases "\<exists>s r. ev = EExec s r")
    case True
    then obtain s r where ev: "ev = EExec s r" by blast
    have "if k = i then map_option CreatedAt (stmt_effect ts s (rows V w) k) = map_option CreatedAt (rows V w k)
          else stmt_effect ts s (rows V w) k = rows V w k" for ts
      using assms(3) ok fold_assign_created unfolding ev
      by (auto simp: law_simps split: option.split)
    with rel ev show ?thesis by (cases r) (auto split: if_splits)
  next
    case False
    have "rows V w' = rows V w"
    proof (cases ev)
      case (EFirst q r)
      with rel show ?thesis by (cases r) simp_all
    qed (use False assms(3) rel in auto)
    then show ?thesis by simp
  qed
qed

text \<open>
  If the handler reports an error although every statement succeeded, the task is as it was,
  up to the time of its last update.
\<close>

lemma refused_crowded:
  assumes "gorm_laws E V" "message_of L body = Some (ev, p)" "pl_TaskID p \<noteq> j"
    and "run E (TaskSummarizer_Handle L (production_worker b c (Some d)) body) w = (Some e, w')"
    and ok: "list_all exec_ok (log E (TaskSummarizer_Handle L (production_worker b c (Some d)) body) w)"
    and "crowded_out V batch grace j w"
  shows "crowded_out V batch grace j w' \<and> rows V w' j = rows V w j"
proof -
  let ?h = "TaskSummarizer_Handle L (production_worker b c (Some d)) body"
  have nf: "\<not> update_failed i st x" if "exec_ok x" for i st x
    using that by (cases "(i, st, x)" rule: update_failed.cases) simp_all
  from paid_worker.Handle_store [OF assms(1,4)] assms(2) obtain w0 h
    where w0: "store V w0 = store V w"
      and pr: "run E (Summarizer_process L (production_worker b c (Some d)) ev p) w0 = (Some e, w')"
      and lg: "log E ?h w = h @ log E (Summarizer_process L (production_worker b c (Some d)) ev p) w0"
    by auto
  have "\<not> failed_in (log E (Summarizer_process L (production_worker b c (Some d)) ev p) w0) i st" for i st
    using ok nf unfolding lg by (auto simp: list_all_iff list_ex_iff)
  with process_outcome(2) [OF assms(1) pr] consider "store V w' = store V w0"
    | t where "store V w0 (pl_TaskID p) = Some t" "Status t = TaskStatusPending"
        "store V w' = (store V w0)(pl_TaskID p \<mapsto> t\<lparr>Status := TaskStatusPending, Summary := Summary t\<rparr>)"
    unfolding interrupted_def by blast
  then have st: "store V w' = store V w"
  proof cases
    case 2
    then have "t\<lparr>Status := TaskStatusPending, Summary := Summary t\<rparr> = t" by (cases t) simp
    with 2 w0 show ?thesis by (simp add: fun_upd_idem)
  qed (use w0 in simp)
  have keep: "if k = pl_TaskID p then map_option CreatedAt (rows V w' k) = map_option CreatedAt (rows V w k)
      else rows V w' k = rows V w k" for k
  proof -
    have "(\<lambda>y. if k = pl_TaskID p then map_option CreatedAt (rows V y k) = map_option CreatedAt (rows V w k)
        else rows V y k = rows V w k) w'"
      by (rule run_invariant [OF Handle_touches [OF assms(2)] _ assms(4)])
         (use touch_keeps [OF assms(1), of _ _ _ "pl_TaskID p" k] in \<open>auto split: if_splits\<close>)
    then show ?thesis .
  qed
  have pend: "\<exists>t'. rows V w' i = Some t' \<and> Status t' = TaskStatusPending \<and> CreatedAt t' = CreatedAt t"
    if "rows V w i = Some t" "Status t = TaskStatusPending" for i t
  proof -
    have "map_option Status (rows V w' i) = map_option Status (rows V w i)"
      using arg_cong [OF st, of "\<lambda>m. map_option Status (m i)"] by (simp only: store_status_of)
    with that have "map_option Status (rows V w' i) = Some TaskStatusPending" by simp
    moreover have "map_option CreatedAt (rows V w' i) = Some (CreatedAt t)"
      using keep [of i] that by (auto split: if_splits)
    ultimately show ?thesis by auto
  qed
  have j: "rows V w' j = rows V w j" using keep [of j] assms(3) by simp
  have "clk V w \<le> clk V w'" by (rule run_clock [OF assms(1,4)])
  from crowd_stays [OF assms(1,6) this j pend] j show ?thesis by simp
qed

section \<open>Property\<close>

text \<open>
  What may happen to a task that is crowded out: sweeps of the reconciler; deliveries of
  messages for other tasks whose handling fails although the statements on the table succeed,
  as it does when the model refuses the text of a task; and anything that leaves the pending
  tasks and task \<open>j\<close> as they are. These steps come one after the other; the list collects
  the calls of the sweeps.
\<close>

inductive poisoned ::
  "lib \<Rightarrow> 'w env \<Rightarrow> 'w view \<Rightarrow> broker \<Rightarrow> client \<Rightarrow> dedupe \<Rightarrow> reconciler_options \<Rightarrow> uuid \<Rightarrow>
     'w \<Rightarrow> event list \<Rightarrow> 'w \<Rightarrow> bool"
  for L E V b c d opts j w where
  start: "poisoned L E V b c d opts j w [] w"
| sweeps:
    "poisoned L E V b c d opts j w evs w1 \<Longrightarrow>
     run E (Reconciler_Run n (production_reconciler L b opts)) w1 = (x, w2) \<Longrightarrow>
     poisoned L E V b c d opts j w
       (evs @ log E (Reconciler_Run n (production_reconciler L b opts)) w1) w2"
| refusal:
    "poisoned L E V b c d opts j w evs w1 \<Longrightarrow>
     message_of L body = Some (ev, p) \<Longrightarrow> pl_TaskID p \<noteq> j \<Longrightarrow>
     run E (TaskSummarizer_Handle L (production_worker b c (Some d)) body) w1 = (Some e, w2) \<Longrightarrow>
     list_all exec_ok (log E (TaskSummarizer_Handle L (production_worker b c (Some d)) body) w1) \<Longrightarrow>
     poisoned L E V b c d opts j w evs w2"
| other:
    "poisoned L E V b c d opts j w evs w1 \<Longrightarrow> clk V w1 \<le> clk V w2 \<Longrightarrow> rows V w2 j = rows V w1 j \<Longrightarrow>
     (\<And>i t. rows V w1 i = Some t \<Longrightarrow> Status t = TaskStatusPending \<Longrightarrow> rows V w2 i = Some t) \<Longrightarrow>
     poisoned L E V b c d opts j w evs w2"

text \<open>
  C19: A full batch of old pending tasks starves every newer task. Suppose a task has at least
  as many pending tasks in front of it, created before it and longer ago than the grace
  period, as a batch holds. Then, however often the reconciler sweeps and whatever the other
  services reply to it, as long as the tasks in front are not completed, because nothing
  handles their messages or because the model refuses them each time, no query returns the
  task to a sweep, its row stays as it is, and the same holds afterwards: the task is not
  rescued, because neither republishing a pending task nor a refused delivery moves it from
  the front.
\<close>

theorem old_tasks_starve_newer:
  assumes "gorm_laws E V" and "clock_laws E V" and "ro_now opts = None"
    and "crowded_out V (batch_of opts) (grace_of opts) j w"
    and "poisoned L E V b c d opts j w evs w'"
  shows "rows V w' j = rows V w j \<and> crowded_out V (batch_of opts) (grace_of opts) j w' \<and>
         list_all (leaves_out j) evs"
  using assms(5)
proof (induction rule: poisoned.induct)
  case (sweeps evs w1 n x w2)
  with run_crowded [OF assms(1-3) _ sweeps.hyps(2)] show ?case by simp
next
  case (refusal evs w1 body ev p e w2)
  note r = refused_crowded [OF assms(1) refusal.hyps(2-5), of "batch_of opts" "grace_of opts"]
  from refusal.IH have "crowded_out V (batch_of opts) (grace_of opts) j w1" by simp
  from r [OF this] refusal.IH show ?case by simp
next
  case (other evs w1 w2)
  with crowd_stays [OF assms(1) _ other.hyps(2,3)] show ?case by simp
qed (use assms(4) in simp)

text \<open>
  Two pending tasks and a batch of one: the older task's message is delivered and the model
  fails, then the reconciler sweeps twice.
\<close>

definition old_task :: task where
  "old_task = (sample_task TaskStatusPending)\<lparr>ID := mem_uuid 11, CreatedAt := 5\<rparr>"

definition old_message :: bytes where
  "old_message =
     Json (JObj
       [(''id'', JStr ''e2''), (''type'', JStr ''task.created''), (''timestamp'', JStr ''10''),
        (''payload'', JObj
           [(''task_id'', JStr (uuid_String (mem_uuid 11))), (''title'', JStr ''Write docs''),
            (''description'', JStr ''the API'')])])"

definition crowded_state :: mem where
  "crowded_state = (mem_with [old_task, sample_task TaskStatusPending])\<lparr>m_faults := [False, False, False, True]\<rparr>"

abbreviation old_refusal :: "goerror option prog" where
  "old_refusal \<equiv> TaskSummarizer_Handle mem_lib
     (production_worker sample_broker sample_client (Some (NewDedupe 0))) old_message"

abbreviation two_sweeps :: "bool prog" where
  "two_sweeps \<equiv> Reconciler_Run 2
     (production_reconciler mem_lib sample_broker (sample_options\<lparr>ro_BatchSize := 1\<rparr>))"

lemma crowded_sample:
  "crowded_out mem_view 1 1 sample_id crowded_state"
proof -
  have rows: "mem_rows crowded_state sample_id = Some (sample_task TaskStatusPending)"
    "mem_rows crowded_state (mem_uuid 11) = Some old_task" by code_simp+
  have c: "m_clock crowded_state = 30" by (simp add: crowded_state_def mem_with_def)
  have t: "CreatedAt (sample_task TaskStatusPending) = 10" "CreatedAt old_task = 5"
    "Status old_task = TaskStatusPending" by (simp_all add: sample_task_def old_task_def)
  have "mem_uuid 11 \<in> in_front mem_view 1 (CreatedAt (sample_task TaskStatusPending)) crowded_state"
    unfolding in_front_def mem_view_simps by (simp add: rows(2) t c)
  then have "1 \<le> card (in_front mem_view 1 (CreatedAt (sample_task TaskStatusPending)) crowded_state)"
    using in_front_finite [of mem_view crowded_state] mem_rows_ok [of crowded_state]
    by (simp add: Suc_le_eq card_gt_0_iff) blast
  then show ?thesis unfolding crowded_out_def mem_view_simps rows(1) by simp
qed

theorem old_tasks_starve_newer_witness:
  "\<exists>e w1 w2. run mem_env old_refusal crowded_state = (Some e, w1) \<and>
     run mem_env two_sweeps w1 = (False, w2) \<and>
     finds (log mem_env two_sweeps w1) = 2 \<and>
     mem_rows w2 sample_id = Some (sample_task TaskStatusPending) \<and>
     is_stale 30 30 (sample_task TaskStatusPending) \<and>
     list_all (leaves_out sample_id) (log mem_env two_sweeps w1)"
proof -
  let ?o = "sample_options\<lparr>ro_BatchSize := 1\<rparr>" and ?d = "NewDedupe 0"
  let ?w1 = "snd (run mem_env old_refusal crowded_state)"
  let ?ps = "poisoned mem_lib mem_env mem_view sample_broker sample_client ?d ?o sample_id crowded_state"
  have "fst (run mem_env old_refusal crowded_state) \<noteq> None" by code_simp
  then obtain e where e: "fst (run mem_env old_refusal crowded_state) = Some e" by auto
  have ok: "list_all exec_ok (log mem_env old_refusal crowded_state)" by code_simp
  have m: "message_of mem_lib old_message =
      Some (''e2'', \<lparr>pl_TaskID = mem_uuid 11, pl_Title = ''Write docs'', pl_Description = ''the API''\<rparr>)"
    by code_simp
  have ne: "pl_TaskID \<lparr>pl_TaskID = mem_uuid 11, pl_Title = ''Write docs'', pl_Description = ''the API''\<rparr> \<noteq> sample_id"
    by (simp add: sample_id_def mem_uuid_def)
  have "fst (run mem_env two_sweeps ?w1) = False" by code_simp
  note r = run_fst [OF this]
  have "?ps ([] @ log mem_env two_sweeps ?w1) (snd (run mem_env two_sweeps ?w1))"
    by (rule poisoned.sweeps [OF poisoned.refusal [OF poisoned.start m ne run_fst [OF e] ok] r])
  then have ps: "?ps (log mem_env two_sweeps ?w1) (snd (run mem_env two_sweeps ?w1))" by simp
  have o: "ro_now ?o = None" "batch_of ?o = 1" "grace_of ?o = 1"
    by (simp_all add: sample_options_def with_default_def)
  have f: "finds (log mem_env two_sweeps ?w1) = 2" by code_simp
  have row: "mem_rows crowded_state sample_id = Some (sample_task TaskStatusPending)" by code_simp
  have st: "is_stale 30 30 (sample_task TaskStatusPending)" by (simp add: is_stale_def sample_task_def)
  from old_tasks_starve_newer [OF mem_gorm_laws mem_clock_laws o(1) _ ps] crowded_sample
  have "mem_rows (snd (run mem_env two_sweeps ?w1)) sample_id = Some (sample_task TaskStatusPending)"
    "list_all (leaves_out sample_id) (log mem_env two_sweeps ?w1)"
    unfolding o(2,3) using row by simp_all
  with run_fst [OF e] r f st show ?thesis by blast
qed

end
