(* ===== verification/Retry_Recovery.thy ===== *)
theory Retry_Recovery
  imports Task_Lifecycle
begin

text \<open>
  The consumer, the handler and the store together over a message's retries: an outage of the
  model during which every other service works. Each failing delivery hands the task back and
  republishes the message; the first delivery after the outage completes the task.
\<close>

section \<open>A delivery that fails in the model\<close>

text \<open>Every call succeeds, except perhaps those to the model.\<close>

fun only_model_fails :: "event \<Rightarrow> bool" where
  "only_model_fails (EExec s r) \<longleftrightarrow> \<not> isl r"
| "only_model_fails (ERedis c r) \<longleftrightarrow> r = None"
| "only_model_fails (ESetNX k v ttl r) \<longleftrightarrow> \<not> isl r"
| "only_model_fails _ \<longleftrightarrow> True"

lemma only_model_not_failed: "only_model_fails ev \<Longrightarrow> \<not> failed ev"
  by (cases ev rule: only_model_fails.cases) simp_all

lemma only_model_exec: "only_model_fails ev \<Longrightarrow> exec_ok ev"
  by (cases ev rule: exec_ok.cases) simp_all

text \<open>Such a delivery leaves the tasks as they were, and no marker.\<close>

lemma give_back_model:
  assumes "gorm_laws E V" "redis_durable E V" "ev \<noteq> ''''" "store V w i = Some t"
    and "run E (Summarizer_give_back (production_worker b c (Some d)) ev i err) w = (r, w')"
    and "list_all only_model_fails (log E (Summarizer_give_back (production_worker b c (Some d)) ev i err) w)"
  shows "kv V w' (dedupe_key ev) = None \<and>
         store V w' = (store V w)(i \<mapsto> t\<lparr>Status := TaskStatusPending\<rparr>)"
proof -
  obtain u where u: "run E (Dedupe_Release d ev) w = ((), u)" by (metis old.unit.exhaust surj_pair)
  have su: "store V u = store V w" by (rule paid_worker.dedupe_store(2) [OF assms(1) u])
  obtain x v where x: "run E (TaskService_MarkPending (production_service b) i) u = (x, v)" by fastforce
  have "list_all only_model_fails (log E (TaskService_MarkPending (production_service b) i) u)"
    using assms(6) u x by (simp add: Summarizer_give_back_def)
  then have "list_all exec_ok (log E (TaskService_MarkPending (production_service b) i) u)"
    by (auto simp: list_all_iff dest: only_model_exec)
  with MarkPending_exec [OF assms(1) _ _ x] su assms(4) have "x = None" by simp
  with stack.MarkPending_store [OF assms(1), of b i u v] x su assms(4)
  have "store V v = (store V w)(i \<mapsto> t\<lparr>Status := TaskStatusPending\<rparr>)" by auto
  moreover have "v = w'" using assms(5) u x by (simp add: Summarizer_give_back_def)
  moreover have "list_all (\<lambda>ev. \<not> failed ev)
      (log E (Summarizer_give_back (production_worker b c (Some d)) ev i err) w)"
    using assms(6) by (auto simp: list_all_iff dest: only_model_not_failed)
  ultimately show ?thesis using paid_worker.give_back_releases [OF assms(2,3,5)] by simp
qed

lemma failed_Handle:
  assumes "gorm_laws E V" "redis_durable E V" "message_of L body = Some (ev, p)" "ev \<noteq> []"
    and t: "store V w (pl_TaskID p) = Some t" "Status t = TaskStatusPending"
    and "kv V w (dedupe_key ev) = None"
    and "run E (TaskSummarizer_Handle L (production_worker b c (Some d)) body) w = (Some e, w')"
    and ok: "list_all only_model_fails
      (log E (TaskSummarizer_Handle L (production_worker b c (Some d)) body) w)"
  shows "store V w' = store V w \<and> kv V w' (dedupe_key ev) = None"
proof -
  let ?i = "pl_TaskID p" and ?svc = "production_service b"
  let ?W = "production_worker b c (Some d)"
  have "list_all exec_ok (log E (TaskSummarizer_Handle L ?W body) w)"
    using ok by (auto simp: list_all_iff dest: only_model_exec)
  from Handle_claims [OF assms(1) redis_durable_laws [OF assms(2)] assms(3) t assms(7,8) this] obtain v
    where sv: "store V v = (store V w)(?i \<mapsto> t\<lparr>Status := TaskStatusProcessing\<rparr>)"
    and rv: "run E (Summarizer_summarize L ?W ev p) v = (Some e, w')"
    and sub: "set (log E (Summarizer_summarize L ?W ev p) v) \<subseteq>
      set (log E (TaskSummarizer_Handle L ?W body) w)" .
  have lv: "list_all only_model_fails (log E (Summarizer_summarize L ?W ev p) v)"
    using ok sub by (auto simp: list_all_iff)
  obtain s y where s: "run E (client_Summarize c (summary_text p)) v = (s, y)" by fastforce
  have sy: "store V y = store V v"
    using paid_worker.llm_store [OF assms(1), of c "summary_text p" v s y] s by simp
  show ?thesis
  proof (cases s)
    case (Inl err)
    let ?g = "Summarizer_give_back ?W ev ?i (errorf (''summarize task '' @ uuid_String ?i) err)"
    have g: "run E ?g y = (Some e, w')" "list_all only_model_fails (log E ?g y)"
      using rv lv s Inl by (simp_all add: Summarizer_summarize_def)
    have "store V y ?i = Some (t\<lparr>Status := TaskStatusProcessing\<rparr>)" using sy sv by simp
    from give_back_model [OF assms(1,2,4) this g] sy sv t show ?thesis
      by (auto simp: fun_eq_iff)
  next
    case (Inr sm)
    obtain z q where z: "run E (TaskService_ApplySummary L ?svc ?i sm) y = (z, q)" by fastforce
    have "list_all exec_ok (log E (TaskService_ApplySummary L ?svc ?i sm) y)"
      using lv s Inr z by (auto simp: Summarizer_summarize_def list_all_iff dest: only_model_exec)
    with z have "z = None" using ApplySummary_exec [OF assms(1) _ _ z] sy sv by simp
    then show ?thesis using rv s Inr z by (simp add: Summarizer_summarize_def)
  qed
qed

section \<open>An outage\<close>

text \<open>
  \<open>outage \<dots> n d' w'\<close>: \<open>n\<close> deliveries in a row, the first one \<open>d\<close> in state \<open>w\<close>, were
  handled while only the model failed, and each was republished; \<open>d'\<close> is the delivery that
  comes next and \<open>w'\<close> the state in which it comes. Between two deliveries anything may happen
  that leaves the task \<open>i\<close> and the marker of the event alone.
\<close>

inductive outage ::
  "'w env \<Rightarrow> 'w view \<Rightarrow> consumer \<Rightarrow> string \<Rightarrow> uuid \<Rightarrow> delivery \<Rightarrow> 'w \<Rightarrow> nat \<Rightarrow> delivery \<Rightarrow> 'w \<Rightarrow> bool"
  for E V C ev i d w where
  start: "outage E V C ev i d w 0 d w"
| again:
    "outage E V C ev i d w n d1 w1 \<Longrightarrow> run E (Consumer_handle C d1) w1 = (x, w2) \<Longrightarrow>
     list_all only_model_fails (log E (Consumer_handle C d1) w1) \<Longrightarrow>
     EAmqp (PublishPlain '''' (cn_queue C) m) None \<in> set (log E (Consumer_handle C d1) w1) \<Longrightarrow>
     d_Headers d2 = p_Headers m \<Longrightarrow> d_ContentType d2 = p_ContentType m \<Longrightarrow> d_Body d2 = p_Body m \<Longrightarrow>
     store V w3 i = store V w2 i \<Longrightarrow> kv V w3 (dedupe_key ev) = kv V w2 (dedupe_key ev) \<Longrightarrow>
     outage E V C ev i d w (Suc n) d2 w3"

lemma outage_retried: "outage E V C ev i d w n d' w' \<Longrightarrow> (retried E C ^^ n) d d'"
proof (induction rule: outage.induct)
  case (again n d1 w1 x w2 m d2 w3)
  from again.hyps(4-7) have "retried E C d1 d2" by (rule retried.retry)
  with again.IH show ?case by auto
qed simp

text \<open>What the settling of a delivery does to the store and the entries: nothing.\<close>

lemma settling_quiet:
  "only (\<lambda>ev. \<not> db_event ev \<and> \<not> redis_event ev) (Consumer_retryOrDeadLetter C d)"
  by (simp add: Consumer_retryOrDeadLetter_def Let_def split: option.split)

lemma retry_keeps:
  assumes "gorm_laws E V" "redis_durable E V" "run E (Consumer_retryOrDeadLetter C d) w = (x, w')"
  shows "store V w' = store V w" "kv V w' = kv V w"
proof -
  have "rows V w' = rows V w"
    by (rule rows_frame [OF assms(1) only_mono [OF settling_quiet] assms(3)]) simp
  then show "store V w' = store V w" by (simp add: store_def)
  show "kv V w' = kv V w"
    by (rule kv_frame_durable [OF assms(2) only_mono [OF settling_quiet] assms(3)]) simp
qed

text \<open>A delivery that was republished had a handler that failed.\<close>

lemma republished_failed:
  assumes "EAmqp (PublishPlain x q m) None \<in>
      set (log E (Consumer_handle (production_consumer L b c dd k) d) w)"
    and "run E (TaskSummarizer_Handle L (production_worker b c dd) (d_Body d)) w = (r, u)"
  shows "r \<noteq> None"
proof
  assume "r = None"
  with assms have "EAmqp (PublishPlain x q m) None \<in>
      set (log E (TaskSummarizer_Handle L (production_worker b c dd) (d_Body d)) w)"
    by (auto simp: Consumer_handle_def split: prod.splits)
  moreover have "filter consumer_event
      (log E (cn_handler (production_consumer L b c dd k) (d_Body d)) w) = []"
    by (rule paid_consumer.handler_quiet)
  ultimately show False by (auto simp: filter_empty_conv)
qed

lemma retried_body:
  "(retried E (production_consumer L b c dd k) ^^ n) d d' \<Longrightarrow> d_Body d' = d_Body d"
proof (induction n arbitrary: d')
  case (Suc n)
  then obtain e where e: "(retried E (production_consumer L b c dd k) ^^ n) d e"
    "retried E (production_consumer L b c dd k) e d'" by auto
  from Suc.IH [OF e(1)] paid_consumer.retried_step [OF e(2)] show ?case by simp
qed simp

lemma outage_keeps:
  assumes "outage E V (production_consumer L b c (Some dd) k) ev (pl_TaskID p) d w n d' w'"
    and "gorm_laws E V" "redis_durable E V" "message_of L (d_Body d) = Some (ev, p)" "ev \<noteq> ''''"
    and "store V w (pl_TaskID p) = Some t" "Status t = TaskStatusPending" "kv V w (dedupe_key ev) = None"
  shows "store V w' (pl_TaskID p) = Some t \<and> kv V w' (dedupe_key ev) = None"
  using assms(1)
proof (induction rule: outage.induct)
  case (again n d1 w1 x w2 m d2 w3)
  let ?h = "TaskSummarizer_Handle L (production_worker b c (Some dd)) (d_Body d1)"
  have body: "d_Body d1 = d_Body d" by (rule retried_body [OF outage_retried [OF again.hyps(1)]])
  obtain r u where r: "run E ?h w1 = (r, u)" by fastforce
  from republished_failed [OF again.hyps(4) r] obtain e where e: "r = Some e" by blast
  have rest: "run E (Consumer_retryOrDeadLetter (production_consumer L b c (Some dd) k) d1) u = (x, w2)"
    using again.hyps(2) r e by (simp add: Consumer_handle_def)
  have "list_all only_model_fails (log E ?h w1)"
    using again.hyps(3) r by (simp add: Consumer_handle_def split: prod.splits)
  with failed_Handle [OF assms(2,3) _ assms(5) _ assms(7) _ r [unfolded e]] assms(4) body again.IH
  have "store V u = store V w1" "kv V u (dedupe_key ev) = None" by simp_all
  with retry_keeps [OF assms(2,3) rest] again.IH again.hyps(8,9) show ?case by simp
qed (use assms(6,8) in simp_all)

section \<open>Property\<close>

text \<open>
  C9: A message survives an outage of the model. Suppose a task.created message without a
  retry counter is delivered while its task is pending and its event is unmarked, that its
  deliveries fail because the model fails, while every other service answers, that the broker
  takes each republication, and that nothing else touches the task or the marker. Then there
  were at most three of them, the task is still pending and unmarked; and the next delivery, in which the claim,
  the model and the update succeed, completes the task and is acknowledged.
\<close>

theorem model_outage_survived:
  assumes "gorm_laws E V" and "redis_durable E V"
    and "message_of L (d_Body d) = Some (ev, p)" and "ev \<noteq> ''''" and "d_Headers d headerRetryCount = None"
    and "store V w (pl_TaskID p) = Some t" and "Status t = TaskStatusPending"
    and "kv V w (dedupe_key ev) = None"
    and "outage E V (production_consumer L b c (Some dd) k) ev (pl_TaskID p) d w n d' w'"
    and "run E (Consumer_handle (production_consumer L b c (Some dd) k) d') w' = (x, w'')"
    and "list_all answered (log E (Consumer_handle (production_consumer L b c (Some dd) k) d') w')"
  shows "n \<le> 3 \<and> store V w' (pl_TaskID p) = Some t \<and> kv V w' (dedupe_key ev) = None \<and>
         completes E (client_iface c) p (store V w') (store V w'') \<and>
         (\<exists>r. EAmqp (Ack (d_Tag d')) r \<in>
                set (log E (Consumer_handle (production_consumer L b c (Some dd) k) d') w'))"
proof -
  let ?h = "TaskSummarizer_Handle L (production_worker b c (Some dd)) (d_Body d')"
  have z: "retries_of d = 0" using assms(5) by (simp add: retryCount_def)
  from paid_consumer.retried_chain [OF outage_retried [OF assms(9)]]
  have n: "n \<le> 3" and body: "d_Body d' = d_Body d" by (auto simp: z MaxRetries_def)
  from outage_keeps [OF assms(9,1-4,6-8)]
  have st: "store V w' (pl_TaskID p) = Some t" "kv V w' (dedupe_key ev) = None" by simp_all
  obtain r u where r: "run E ?h w' = (r, u)" by fastforce
  have "list_all answered (log E ?h w')"
    using assms(11) r by (simp add: Consumer_handle_def split: prod.splits)
  with Handle_completes [OF assms(1) redis_durable_laws [OF assms(2)] _ st(1) assms(7) st(2) r] assms(3) body
  have ok: "r = None" "completes E (client_iface c) p (store V w') (store V u)" by simp_all
  obtain y where y: "on_amqp E (Ack (d_Tag d')) u = (y, w'')"
    using assms(10) r ok by (auto simp: Consumer_handle_def split: prod.splits)
  then have a: "run E (Amqp (Ack (d_Tag d')) (\<lambda>err. Return ())) u = ((), w'')" by simp
  have "rows V w'' = rows V u" by (rule rows_frame [OF assms(1) _ a]) simp
  then have "store V w'' = store V u" by (simp add: store_def)
  moreover have "EAmqp (Ack (d_Tag d')) y \<in>
      set (log E (Consumer_handle (production_consumer L b c (Some dd) k) d') w')"
    using r ok y by (simp add: Consumer_handle_def)
  ultimately show ?thesis using n st ok by auto
qed

text \<open>The sample message, delivered while the model fails, and delivered again.\<close>

definition sample_outage :: mem where
  "sample_outage = (mem_with [sample_task TaskStatusPending])\<lparr>m_faults := [False, False, False, True]\<rparr>"

definition sample_redelivery :: delivery where
  "sample_redelivery =
     \<lparr>d_Tag = 2, d_ContentType = ''application/json'', d_RoutingKey = QueueTaskEvents,
      d_Headers = [headerRetryCount \<mapsto> HInt32 1], d_Body = sample_message\<rparr>"

abbreviation sample_after :: mem where
  "sample_after \<equiv> snd (run mem_env (Consumer_handle sample_consumer sample_delivery) sample_outage)"

lemma sample_outage_once:
  "outage mem_env mem_view sample_consumer ''e1'' sample_id sample_delivery sample_outage 1
     sample_redelivery sample_after"
proof -
  have "list_ex requeued (log mem_env (Consumer_handle sample_consumer sample_delivery) sample_outage)"
    by code_simp
  then obtain e where e: "e \<in> set (log mem_env (Consumer_handle sample_consumer sample_delivery) sample_outage)"
    "requeued e" by (auto simp: list_ex_iff)
  from e(2) obtain m where "e = EAmqp (PublishPlain '''' (cn_queue sample_consumer) m) None"
    by (cases e rule: requeued.cases) auto
  with e(1) have m: "EAmqp (PublishPlain '''' (cn_queue sample_consumer) m) None \<in>
      set (log mem_env (Consumer_handle sample_consumer sample_delivery) sample_outage)" by simp
  then have "EAmqp (PublishPlain '''' (cn_queue sample_consumer) m) None \<in>
      set (filter consumer_event (log mem_env (Consumer_handle sample_consumer sample_delivery) sample_outage))"
    by simp
  from settlement_retry [OF paid_consumer.handle_settles this]
  obtain now where now: "m = retry_message sample_delivery now" by blast
  have ok: "list_all only_model_fails
      (log mem_env (Consumer_handle sample_consumer sample_delivery) sample_outage)" by code_simp
  have "outage mem_env mem_view sample_consumer ''e1'' sample_id sample_delivery sample_outage (Suc 0)
      sample_redelivery sample_after"
    by (rule outage.again [OF outage.start surjective_pairing ok m])
       (simp_all add: now retry_message_def retryCount_def sample_delivery_def sample_redelivery_def)
  then show ?thesis by simp
qed

theorem model_outage_survived_witness:
  "\<exists>p w2. run mem_env (Consumer_handle sample_consumer sample_redelivery) sample_after = ((), w2) \<and>
     message_of mem_lib (d_Body sample_redelivery) = Some (''e1'', p) \<and>
     completes mem_env (client_iface sample_client) p (store mem_view sample_after) (store mem_view w2)"
proof -
  let ?p = "\<lparr>pl_TaskID = sample_id, pl_Title = ''Write docs'', pl_Description = ''the API''\<rparr>"
  let ?h = "Consumer_handle sample_consumer sample_redelivery"
  have m: "message_of mem_lib (d_Body sample_delivery) = Some (''e1'', ?p)"
    by (simp add: sample_delivery_def sample_message_of)
  have h: "d_Headers sample_delivery headerRetryCount = None" by (simp add: sample_delivery_def)
  have "rows mem_view sample_outage sample_id = Some (sample_task TaskStatusPending)" by code_simp
  then have row: "store mem_view sample_outage (pl_TaskID ?p) = Some (erase (sample_task TaskStatusPending))"
    by (simp add: store_of)
  have st: "Status (erase (sample_task TaskStatusPending)) = TaskStatusPending"
    by (simp add: sample_task_def)
  have k: "kv mem_view sample_outage (dedupe_key ''e1'') = None" by code_simp
  have ok: "list_all answered (log mem_env ?h sample_after)" by code_simp
  have r: "run mem_env ?h sample_after = ((), snd (run mem_env ?h sample_after))"
    by (simp add: prod_eq_iff)
  have o: "outage mem_env mem_view sample_consumer ''e1'' (pl_TaskID ?p) sample_delivery sample_outage 1
     sample_redelivery sample_after" using sample_outage_once by simp
  from model_outage_survived [OF mem_gorm_laws mem_redis_durable m _ h row st k o r ok] r m
  show ?thesis by (auto simp: sample_delivery_def sample_redelivery_def)
qed

end
