(* ===== verification/Spec2Isabelle.thy ===== *)
theory Spec2Isabelle
  imports Cache_Race Sweep_Starvation Retry_Recovery
begin

text \<open>
  A model of \<^verbatim>\<open>golang-staterpack\<close>, a Go service that stores tasks in Postgres, caches
  them in Redis, and has them summarised in the background by a language model, driven by
  messages over RabbitMQ.

  \<^bold>\<open>How the parts interact.\<close> An HTTP request creates a task: the task service stores
  it and publishes a task.created message. A consumer reads the message and hands its body
  to the task summarizer, which asks a Redis guard whether the event is new, claims the task
  by a conditional update (pending to processing), calls the model, and stores the summary
  (completed). A failing message is republished up to three times and then dead-lettered.
  A reconciler looks periodically for tasks that were left pending or processing for too
  long, resets them and publishes their message again. \<^verbatim>\<open>cmd/api/main.go\<close> reads the
  configuration, opens the backends, wires these parts together, runs them and closes what
  it opened.

  \<^bold>\<open>How Go code is modelled.\<close> A function that calls a service outside the repository
  (GORM, Redis, AMQP, the model, the clock, the UUID generator) is an interaction program of
  theory \<open>Effects\<close>: it makes one call, with the arguments the source passes, and
  continues with any reply. The services are an environment, a parameter of every statement;
  what is relied on is stated in \<open>Backend_Laws\<close> (an operation on the table happens
  atomically, an error leaves open whether it happened, Redis may lose entries) and appears
  as a named hypothesis. \<open>Reference_Backend\<close> is an in-memory instance that meets these
  hypotheses and on which the programs are run. Errors are values of a sum, nil pointers
  and absent values are options, times and durations are integers of nanoseconds, a header
  counter is a 32-bit word. A loop that may run forever has fuel and a result that says it
  used it up, so a statement for every fuel is a statement about every prefix of its work;
  the dialing of the broker is bounded by its ten attempts and needs none. Programs that
  run at the same time are interleaved call by call (\<open>Interleaving\<close>); a trace may stop
  anywhere.

  \<^bold>\<open>The theories.\<close>
  \<^item> \<open>Prelude\<close>: Go errors, durations, and shared lemmas; \<open>Task_Model\<close>:
    \<^verbatim>\<open>internal/model/task.go\<close>; \<open>Go_Strconv\<close> and \<open>Go_Duration\<close>: the integer
    conversions of \<^verbatim>\<open>strconv\<close> and the text form of \<^verbatim>\<open>time.Duration\<close>.
  \<^item> \<open>Effects\<close>, \<open>Backend_Laws\<close>, \<open>Reference_Backend\<close>: programs,
    hypotheses, instance; \<open>Interleaving\<close>: interleaved programs, and what holds of each
    program's part of a trace.
  \<^item> \<open>Json_Codec\<close> and \<open>Event_Messages\<close>: the JSON forms of a task and of the
    messages of \<^verbatim>\<open>internal/event/event.go\<close>, with their round trips (locale
    \<open>json_codec\<close>).
  \<^item> \<open>Task_Repository\<close>: \<^verbatim>\<open>internal/repository/task_repository.go\<close>. The
    locale \<open>task_store\<close> is its contract, an abstract store of tasks without time stamps,
    which the GORM implementation refines.
  \<^item> \<open>Task_Service\<close>: \<^verbatim>\<open>internal/service/task_service.go\<close>. The locale
    \<open>publisher\<close> is the contract of the broker; \<open>service_stack\<close> combines it with
    \<open>task_store\<close>, and the facts about the use cases are proved in it.
  \<^item> \<open>Service_Cache\<close>: sequences of all methods of the service and the invariant of the
    Redis cache (every entry spells the row of its task, unless the task was marked as failed),
    and what creating and listing promise.
  \<^item> \<open>Broker\<close> and \<open>Consumer\<close>: \<^verbatim>\<open>internal/broker/broker.go\<close> and
    \<^verbatim>\<open>consumer.go\<close>; the broker is interpreted as a \<open>publisher\<close>. The locale
    \<open>message_handler\<close> is what the consumer relies on from its handler.
  \<^item> \<open>Dedupe_Guard\<close>: \<^verbatim>\<open>internal/broker/dedupe.go\<close>; \<open>Llm_Client\<close>:
    \<^verbatim>\<open>internal/llm/client.go\<close> (locale \<open>llm_contract\<close>).
  \<^item> \<open>Task_Summarizer\<close>: \<^verbatim>\<open>internal/worker/task_summarizer.go\<close>, over the
    locale \<open>worker_stack\<close>; it also states the properties of the consumer that runs the
    handler. What a failing delivery may leave behind is said in terms of the statements that
    were reported as failed (\<open>interrupted\<close>).
  \<^item> \<open>Stale_Reconciler\<close>: \<^verbatim>\<open>internal/reconciler/reconciler.go\<close>; the locale
    \<open>stale_tasks\<close> is the interface it declares, interpreted on the service.
  \<^item> \<open>App_Config\<close>: \<^verbatim>\<open>internal/config/config.go\<close>: reading the variables with
    their defaults, the connection string, the validation; which environments load, and
    what holds of a loaded configuration.
  \<^item> \<open>Http_Transport\<close>: \<^verbatim>\<open>internal/transport/http\<close>: the middleware, the handlers,
    the mapping of errors to responses, the routes and their dispatch. \<open>Http_Api\<close>: what
    every stage of the chain keeps (locale \<open>stage\<close>, interpreted on each middleware), the
    shape of every response, the rate limiter, readiness. \<open>Http_Store\<close>: what the status
    of a response says about the stored tasks (locale \<open>truthful_stage\<close>).
  \<^item> \<open>Service_Start\<close>: \<^verbatim>\<open>internal/logger\<close>, \<^verbatim>\<open>internal/storage\<close> and
    \<^verbatim>\<open>cmd/api/main.go\<close>: the wiring, the order of the start, the three ways to stop, the
    deferred calls; what is opened, what is closed, and what a failed ping leaves open.
  \<^item> \<open>System_Interleaving\<close>: any number of requests, deliveries and sweeps of the wired
    program at the same time: the invariant of the table, the bound on the paid calls (a
    claim that is won uses up a pending row, and only storing or resetting a task makes one),
    and a race that reaches it. The locale \<open>calling_stage\<close> carries a property of calls
    through the HTTP chain. \<open>Cache_Race\<close>: an interleaving of a worker and a deletion after
    which the cache serves the deleted task.
  \<^item> \<open>Task_Lifecycle\<close>: a task from its creation, or from the sweep that finds it
    stranded, to its completion by the worker, and the calls that must succeed for it.
    \<open>Retry_Recovery\<close>: the same across the retries of a message while the model fails.
    \<open>Sweep_Starvation\<close>: the batches that keep a task from being swept, over any number of
    sweeps and of deliveries that the model refuses, one after the other, as long as the tasks
    in front are not completed.

  \<^bold>\<open>What is not modelled.\<close> The log lines that the components write (the logger itself
  is); contexts and their deadlines, except where a \<^verbatim>\<open>select\<close> waits for a cancellation; the text syntax of JSON (values are modelled, not their spelling;
  strings are taken to be valid UTF-8, as Postgres requires, since \<^verbatim>\<open>encoding/json\<close> would
  replace other bytes); panics, which no modelled handler raises, so that the recovering
  middleware is modelled without one being caught; the text forms of times and UUIDs, which are a parameter that round-trips. Third-party code is
  a parameter: the Fiber framework (matching a route, parameters, body parsing), the loading
  of a \<^verbatim>\<open>.env\<close> file, the reading of a floating-point number, the SDK's constructor, the parsing of
  the command line. The
  fixed pool options of the Redis client and the clock function given to GORM are left out.
  The programs of one process are interleaved by calls; data races on Go variables are
  outside the model.
\<close>

end
